theory Spec2Isabelle
  imports Main
begin

section \<open>The syntax tree (github.com/dave/dst)\<close>

text \<open>
  errfix rewrites Go source through the decorated syntax tree of the dst library. The
  embedding keeps the node types the rewrite rule inspects or builds, with the fields
  it reads and writes, and one constructor for every other node type. Decorations
  (comments, blank lines) are not part of the model: no rule reads them.
\<close>

text \<open>The tokens the rule compares against (go/token).\<close>

datatype token = EQL | NEQ | LAND | LOR | STRING | OtherToken string

text \<open>
  \<^verbatim>\<open>dst.Ident\<close>: \<open>id_Obj\<close> is True when the \<^verbatim>\<open>Obj\<close> pointer is not nil, \<open>id_Path\<close> is the
  import path a resolver may have attached (empty without one).
\<close>

record ident =
  id_Name :: string
  id_Path :: string
  id_Obj :: bool

text \<open>\<^verbatim>\<open>dst.NewIdent(name)\<close> is \<^verbatim>\<open>&Ident{Name: name}\<close>.\<close>

definition NewIdent :: "string \<Rightarrow> ident" where
  "NewIdent name = \<lparr>id_Name = name, id_Path = [], id_Obj = False\<rparr>"

text \<open>\<^verbatim>\<open>(*dst.Ident).String\<close>: the name, qualified by the path when there is one.\<close>

definition ident_String :: "ident \<Rightarrow> string" where
  "ident_String i = (if id_Path i \<noteq> [] then id_Path i @ ''.'' @ id_Name i else id_Name i)"

text \<open>
  The nodes. Every Go type that implements \<^verbatim>\<open>dst.Node\<close> is a value of the one
  datatype, since the rule dispatches on the dynamic type of a node. The children of
  \<open>OtherNode\<close> are listed in the order \<^verbatim>\<open>dst.Walk\<close> visits them. An optional
  child (a nil pointer in Go) is an \<open>option\<close>.
\<close>

datatype node =
    Ident ident
  | BasicLit token string
      \<comment> \<open>Kind, Value (the literal as written in the source, quotes included)\<close>
  | BinaryExpr node token node
      \<comment> \<open>X, Op, Y\<close>
  | CallExpr node "node list" bool
      \<comment> \<open>Fun, Args, Ellipsis\<close>
  | SelectorExpr node ident
      \<comment> \<open>X, Sel\<close>
  | TypeAssertExpr node "node option"
      \<comment> \<open>X, Type (nil in a type switch)\<close>
  | ReturnStmt "node list"
      \<comment> \<open>Results\<close>
  | IfStmt "node option" node node "node option"
      \<comment> \<open>Init, Cond, Body, Else\<close>
  | OtherNode string "node list"
      \<comment> \<open>any other node type: its name and its children\<close>

subsection \<open>Helpers of dst.go\<close>

definition isName :: "node \<Rightarrow> string \<Rightarrow> bool" where
  "isName n name = (case n of Ident i \<Rightarrow> ident_String i = name | _ \<Rightarrow> False)"

definition isTopName :: "node \<Rightarrow> string \<Rightarrow> bool" where
  "isTopName n name = (case n of Ident i \<Rightarrow> id_Name i = name \<and> \<not> id_Obj i | _ \<Rightarrow> False)"

definition isPkgSelector :: "node \<Rightarrow> string \<Rightarrow> string \<Rightarrow> bool" where
  "isPkgSelector t pkg name =
     (case t of SelectorExpr x sel \<Rightarrow> isTopName x pkg \<and> ident_String sel = name
      | _ \<Rightarrow> False)"

section \<open>The rewrite rule\<close>

record pkgErrorsDstProcessor =
  pkgPath :: string
  errorsIdent :: string
  withStackIdent :: string
  causeIdent :: string
  newIdent :: string
  errorfIdent :: string
  wrapfIdent :: string
  errIdent :: string
  nilIdent :: string
  changed :: bool

definition newPkgErrorsDstProcessor :: pkgErrorsDstProcessor where
  "newPkgErrorsDstProcessor =
     \<lparr>pkgPath = ''github.com/pkg/errors'',
      errorsIdent = ''errors'',
      withStackIdent = ''WithStack'',
      causeIdent = ''Cause'',
      newIdent = ''New'',
      errorfIdent = ''Errorf'',
      wrapfIdent = ''Wrapf'',
      errIdent = ''err'',
      nilIdent = ''nil'',
      changed = False\<rparr>"

text \<open>
  The rule mutates the node it is given. In the embedding each \<open>fix\<close> function takes
  the fields of the node that the Go function reads and returns the fields it may have
  written, with the \<^verbatim>\<open>changed\<close> result.
\<close>

text \<open>
  \<^verbatim>\<open>fixReturnStmt\<close>: \<^verbatim>\<open>return [..., ]err\<close> becomes
  \<^verbatim>\<open>return [..., ]errors.WithStack(err)\<close>. The argument is \<^verbatim>\<open>n.Results\<close>.
\<close>

definition withStackExpr :: "pkgErrorsDstProcessor \<Rightarrow> node" where
  "withStackExpr p =
     CallExpr (SelectorExpr (Ident (NewIdent (errorsIdent p))) (NewIdent (withStackIdent p)))
       [Ident (NewIdent (errIdent p))] False"

definition fixReturnStmt :: "pkgErrorsDstProcessor \<Rightarrow> node list \<Rightarrow> node list \<times> bool" where
  "fixReturnStmt p Results =
     (if length Results = 0 then (Results, False)
      else if \<not> isName (Results ! (length Results - 1)) (errIdent p) then (Results, False)
      else (Results[length Results - 1 := withStackExpr p], True))"

definition causeExpr :: "pkgErrorsDstProcessor \<Rightarrow> node" where
  "causeExpr p =
     CallExpr (SelectorExpr (Ident (NewIdent (errorsIdent p))) (NewIdent (causeIdent p)))
       [Ident (NewIdent (errIdent p))] False"

text \<open>
  The closure \<^verbatim>\<open>compareErr\<close> of \<^verbatim>\<open>fixIfStmt\<close>, on the fields X, Op, Y of a
  binary expression.
\<close>

definition compareErr :: "pkgErrorsDstProcessor \<Rightarrow> node \<Rightarrow> token \<Rightarrow> node \<Rightarrow> bool \<Rightarrow> bool" where
  "compareErr p X Op Y yIsNil =
     (let ok = isName X (errIdent p) \<and> (Op = EQL \<or> Op = NEQ) in
      if \<not> ok then False
      else (yIsNil \<and> isName Y (nilIdent p)) \<or> (\<not> yIsNil \<and> \<not> isName Y (nilIdent p)))"

text \<open>
  \<^verbatim>\<open>fixIfStmt\<close> reads and writes only \<^verbatim>\<open>n.Cond\<close>: the argument is the condition,
  the result the condition after the call.
\<close>

definition fixIfStmt :: "pkgErrorsDstProcessor \<Rightarrow> node \<Rightarrow> node \<times> bool" where
  "fixIfStmt p Cond =
     (case Cond of
        BinaryExpr X Op Y \<Rightarrow>
          if compareErr p X Op Y False then (BinaryExpr (causeExpr p) Op Y, True)
          else
            (case X of
               BinaryExpr XX XOp XY \<Rightarrow>
                 (case Y of
                    BinaryExpr YX YOp YY \<Rightarrow>
                      if (Op = LAND \<or> Op = LOR) \<and> compareErr p XX XOp XY True
                           \<and> compareErr p YX YOp YY False
                      then (BinaryExpr X Op (BinaryExpr (causeExpr p) YOp YY), True)
                      else (Cond, False)
                  | _ \<Rightarrow> (Cond, False))
             | _ \<Rightarrow> (Cond, False))
      | _ \<Rightarrow> (Cond, False))"

text \<open>\<^verbatim>\<open>fixTypeAssertExpr\<close> reads and writes \<^verbatim>\<open>n.X\<close>.\<close>

definition fixTypeAssertExpr :: "pkgErrorsDstProcessor \<Rightarrow> node \<Rightarrow> node \<times> bool" where
  "fixTypeAssertExpr p X = (if \<not> isName X (errIdent p) then (X, False) else (causeExpr p, True))"

subsection \<open>Go's standard library\<close>

text \<open>
  \<^verbatim>\<open>strconv.Unquote\<close> and \<^verbatim>\<open>strconv.Quote\<close> belong to Go's standard library, not to
  this repository, so every function that calls them takes them as a parameter:
  \<open>Unquote\<close> returns \<open>None\<close> where the Go function returns an error, and \<open>Quote\<close> also
  stands for \<^verbatim>\<open>fmt.Sprintf("%q", s)\<close>, which quotes a string the same way.
\<close>

record strconv =
  Unquote :: "string \<Rightarrow> string option"
  Quote :: "string \<Rightarrow> string"

text \<open>\<^verbatim>\<open>strings.HasSuffix\<close> and \<^verbatim>\<open>strings.TrimRight\<close> (with an ASCII cutset), on bytes.\<close>

definition HasSuffix :: "string \<Rightarrow> string \<Rightarrow> bool" where
  "HasSuffix s suffix =
     (length s \<ge> length suffix \<and> drop (length s - length suffix) s = suffix)"

definition TrimRight :: "string \<Rightarrow> string \<Rightarrow> string" where
  "TrimRight s cutset = rev (dropWhile (\<lambda>c. c \<in> set cutset) (rev s))"

text \<open>
  \<^verbatim>\<open>fixCallExpr\<close> reads and writes \<^verbatim>\<open>n.Fun\<close> and \<^verbatim>\<open>n.Args\<close>.
  \<^verbatim>\<open>n.Args[1:len(n.Args)-1]\<close> is \<open>drop 1 (take (length Args - 1) Args)\<close>.
\<close>

definition fixCallExpr ::
  "strconv \<Rightarrow> pkgErrorsDstProcessor \<Rightarrow> node \<Rightarrow> node list \<Rightarrow> (node \<times> node list) \<times> bool" where
  "fixCallExpr sc p Fun Args =
     (if isPkgSelector Fun (errorsIdent p) (newIdent p) then ((Fun, Args), True)
      else if isPkgSelector Fun ''fmt'' ''Errorf'' then
        (if length Args = 0 then ((Fun, Args), False)
         else
           (case Args ! 0 of
              BasicLit Kind Value \<Rightarrow>
                if Kind \<noteq> STRING then ((Fun, Args), False)
                else
                  (case Unquote sc Value of
                     None \<Rightarrow> ((Fun, Args), False)
                   | Some format \<Rightarrow>
                       let ok = length Args \<ge> 2
                                 \<and> isName (Args ! (length Args - 1)) (errIdent p)
                                 \<and> HasSuffix format ''%v''
                       in
                         if ok then
                           let newFormat =
                                 TrimRight (take (length format - length ''%v'') format) '' :,'';
                               newArgs =
                                 [Args ! (length Args - 1), BasicLit STRING (Quote sc newFormat)];
                               newArgs = newArgs @ drop 1 (take (length Args - 1) Args)
                           in ((SelectorExpr (Ident (NewIdent (errorsIdent p)))
                                  (NewIdent (wrapfIdent p)), newArgs), True)
                         else ((SelectorExpr (Ident (NewIdent (errorsIdent p)))
                                  (NewIdent (errorfIdent p)), Args), True))
            | _ \<Rightarrow> ((Fun, Args), False)))
      else ((Fun, Args), False))"

text \<open>
  \<^verbatim>\<open>(*pkgErrorsDstProcessor).Process\<close>: the dispatch on the node's type. It returns
  the rule with its flag updated and the node after the rewrite; its Go error result is
  always nil.
\<close>

definition pkgErrors_Process ::
  "strconv \<Rightarrow> pkgErrorsDstProcessor \<Rightarrow> node \<Rightarrow> pkgErrorsDstProcessor \<times> node" where
  "pkgErrors_Process sc p n =
     (case
        (case n of
           ReturnStmt Results \<Rightarrow>
             (case fixReturnStmt p Results of (Results', c) \<Rightarrow> (ReturnStmt Results', c))
         | IfStmt Init Cond Body Else \<Rightarrow>
             (case fixIfStmt p Cond of (Cond', c) \<Rightarrow> (IfStmt Init Cond' Body Else, c))
         | TypeAssertExpr X T \<Rightarrow>
             (case fixTypeAssertExpr p X of (X', c) \<Rightarrow> (TypeAssertExpr X' T, c))
         | CallExpr Fun Args Ellipsis \<Rightarrow>
             (case fixCallExpr sc p Fun Args of
                ((Fun', Args'), c) \<Rightarrow> (CallExpr Fun' Args' Ellipsis, c))
         | _ \<Rightarrow> (n, False))
      of (n', c) \<Rightarrow> (p\<lparr>changed := changed p \<or> c\<rparr>, n'))"

subsection \<open>The traversal\<close>

text \<open>
  Modelled from the spec: the traversal \<^verbatim>\<open>dst.Inspect\<close> of the dst library, whose
  sources are not part of the repository. It is the depth-first visit of the spec's
  syntax tree model, with a callback that can mutate the node in place: it calls the
  rule on a node and then, since the rule always returns a nil error, walks the
  children of the node as the rule left it, in the order of \<^verbatim>\<open>dst.Walk\<close>. (The walk
  also visits the \<^verbatim>\<open>Sel\<close> identifier of a selector and calls the rule with nil
  after the children of each node; the rule does nothing on either.)

  A rewrite can put a larger node in the place of a smaller one, so the recursion is
  not structural: it terminates because the weight below, which charges the rewritable
  node types in advance for the call a rewrite may insert, decreases. \<open>kids_weight\<close>
  is the weight of the children of a node.
\<close>

fun node_weight :: "node \<Rightarrow> nat" where
  "node_weight (Ident i) = 1"
| "node_weight (BasicLit k v) = 1"
| "node_weight (BinaryExpr X Op Y) = 1 + node_weight X + node_weight Y"
| "node_weight (CallExpr Fun Args e) = 1 + node_weight Fun + sum_list (map node_weight Args)"
| "node_weight (SelectorExpr X Sel) = 1 + node_weight X"
| "node_weight (TypeAssertExpr X T) =
     5 + node_weight X + (case T of None \<Rightarrow> 0 | Some t \<Rightarrow> node_weight t)"
| "node_weight (ReturnStmt Results) = 5 + sum_list (map node_weight Results)"
| "node_weight (IfStmt Init Cond Body Else) =
     5 + (case Init of None \<Rightarrow> 0 | Some i \<Rightarrow> node_weight i) + node_weight Cond
       + node_weight Body + (case Else of None \<Rightarrow> 0 | Some e \<Rightarrow> node_weight e)"
| "node_weight (OtherNode k ns) = 1 + sum_list (map node_weight ns)"

fun kids_weight :: "node \<Rightarrow> nat" where
  "kids_weight (Ident i) = 0"
| "kids_weight (BasicLit k v) = 0"
| "kids_weight (BinaryExpr X Op Y) = node_weight X + node_weight Y"
| "kids_weight (CallExpr Fun Args e) = node_weight Fun + sum_list (map node_weight Args)"
| "kids_weight (SelectorExpr X Sel) = node_weight X"
| "kids_weight (TypeAssertExpr X T) =
     node_weight X + (case T of None \<Rightarrow> 0 | Some t \<Rightarrow> node_weight t)"
| "kids_weight (ReturnStmt Results) = sum_list (map node_weight Results)"
| "kids_weight (IfStmt Init Cond Body Else) =
     (case Init of None \<Rightarrow> 0 | Some i \<Rightarrow> node_weight i) + node_weight Cond
       + node_weight Body + (case Else of None \<Rightarrow> 0 | Some e \<Rightarrow> node_weight e)"
| "kids_weight (OtherNode k ns) = sum_list (map node_weight ns)"

lemma sum_list_update_le:
  "sum_list (map f (xs[i := x])) \<le> sum_list (map f xs) + (f x :: nat)"
  by (induction xs arbitrary: i) (auto split: nat.splits simp: le_SucI add.commute add_le_mono trans_le_add2)

lemma sum_list_first_middle_last:
  "2 \<le> length xs \<Longrightarrow>
     sum_list (map f xs) =
       (f (xs ! 0) :: nat) + sum_list (map f (drop 1 (take (length xs - 1) xs)))
         + f (xs ! (length xs - 1))"
proof -
  assume a: "2 \<le> length xs"
  then obtain y ys where xs: "xs = y # ys" and ne: "ys \<noteq> []" by (cases xs) force+
  then obtain zs z where ys: "ys = zs @ [z]" by (metis rev_exhaust)
  show ?thesis by (simp add: xs ys nth_append)
qed

lemma isPkgSelector_weight: "isPkgSelector t a b \<Longrightarrow> node_weight t = 2"
  by (auto simp: isPkgSelector_def isTopName_def split: node.splits)

lemma fixReturnStmt_weight:
  "fixReturnStmt p rs = (rs', c) \<Longrightarrow>
     sum_list (map node_weight rs') \<le> sum_list (map node_weight rs) + 4"
  using sum_list_update_le [of node_weight rs "length rs - 1" "withStackExpr p"]
  by (auto simp: fixReturnStmt_def withStackExpr_def split: if_splits)

lemma fixIfStmt_weight:
  "fixIfStmt p c = (c', ch) \<Longrightarrow> node_weight c' \<le> node_weight c + 4"
  by (auto simp: fixIfStmt_def causeExpr_def split: node.splits if_splits)

lemma fixTypeAssertExpr_weight:
  "fixTypeAssertExpr p x = (x', ch) \<Longrightarrow> node_weight x' \<le> node_weight x + 4"
  by (auto simp: fixTypeAssertExpr_def causeExpr_def split: if_splits)

lemma fixCallExpr_weight:
  "fixCallExpr sc p f args = ((f', args'), ch) \<Longrightarrow>
     node_weight f' + sum_list (map node_weight args')
       \<le> node_weight f + sum_list (map node_weight args)"
  using sum_list_first_middle_last [of args node_weight]
  by (auto simp: fixCallExpr_def Let_def isPkgSelector_weight
      split: if_splits node.splits option.splits)

lemma node_weight_pos: "0 < node_weight n"
  by (cases n) auto

lemma Process_weight:
  "pkgErrors_Process sc p n = (p1, n1) \<Longrightarrow> kids_weight n1 < node_weight n"
  by (cases n)
    (auto simp: pkgErrors_Process_def split: prod.splits
      dest!: fixReturnStmt_weight fixIfStmt_weight fixTypeAssertExpr_weight fixCallExpr_weight)

function Inspect ::
    "strconv \<Rightarrow> pkgErrorsDstProcessor \<Rightarrow> node \<Rightarrow> pkgErrorsDstProcessor \<times> node"
  and Inspect_list ::
    "strconv \<Rightarrow> pkgErrorsDstProcessor \<Rightarrow> node list \<Rightarrow> pkgErrorsDstProcessor \<times> node list"
  and Inspect_opt ::
    "strconv \<Rightarrow> pkgErrorsDstProcessor \<Rightarrow> node option \<Rightarrow> pkgErrorsDstProcessor \<times> node option"
where
  "Inspect sc p n =
     (case pkgErrors_Process sc p n of
        (p1, n1) \<Rightarrow>
          (case n1 of
             Ident i \<Rightarrow> (p1, n1)
           | BasicLit k v \<Rightarrow> (p1, n1)
           | BinaryExpr X Op Y \<Rightarrow>
               (case Inspect sc p1 X of (p2, X') \<Rightarrow>
                case Inspect sc p2 Y of (p3, Y') \<Rightarrow> (p3, BinaryExpr X' Op Y'))
           | CallExpr Fun Args Ellipsis \<Rightarrow>
               (case Inspect sc p1 Fun of (p2, Fun') \<Rightarrow>
                case Inspect_list sc p2 Args of (p3, Args') \<Rightarrow>
                  (p3, CallExpr Fun' Args' Ellipsis))
           | SelectorExpr X Sel \<Rightarrow>
               (case Inspect sc p1 X of (p2, X') \<Rightarrow> (p2, SelectorExpr X' Sel))
           | TypeAssertExpr X T \<Rightarrow>
               (case Inspect sc p1 X of (p2, X') \<Rightarrow>
                case Inspect_opt sc p2 T of (p3, T') \<Rightarrow> (p3, TypeAssertExpr X' T'))
           | ReturnStmt Results \<Rightarrow>
               (case Inspect_list sc p1 Results of (p2, Results') \<Rightarrow>
                  (p2, ReturnStmt Results'))
           | IfStmt Init Cond Body Else \<Rightarrow>
               (case Inspect_opt sc p1 Init of (p2, Init') \<Rightarrow>
                case Inspect sc p2 Cond of (p3, Cond') \<Rightarrow>
                case Inspect sc p3 Body of (p4, Body') \<Rightarrow>
                case Inspect_opt sc p4 Else of (p5, Else') \<Rightarrow>
                  (p5, IfStmt Init' Cond' Body' Else'))
           | OtherNode k ns \<Rightarrow>
               (case Inspect_list sc p1 ns of (p2, ns') \<Rightarrow> (p2, OtherNode k ns'))))"
| "Inspect_list sc p [] = (p, [])"
| "Inspect_list sc p (n # ns) =
     (case Inspect sc p n of (p1, n') \<Rightarrow>
      case Inspect_list sc p1 ns of (p2, ns') \<Rightarrow> (p2, n' # ns'))"
| "Inspect_opt sc p None = (p, None)"
| "Inspect_opt sc p (Some n) = (case Inspect sc p n of (p1, n') \<Rightarrow> (p1, Some n'))"
  by pat_completeness auto

termination
  apply (relation "measure (\<lambda>a. case a of
            Inl (sc, p, n) \<Rightarrow> 2 * node_weight n
          | Inr (Inl (sc, p, ns)) \<Rightarrow> 2 * sum_list (map node_weight ns) + 1
          | Inr (Inr (sc, p, t)) \<Rightarrow> 2 * (case t of None \<Rightarrow> 0 | Some n \<Rightarrow> node_weight n) + 1)")
  apply (auto dest!: Process_weight [OF sym] simp: node_weight_pos)
  done

text \<open>The equation of \<open>Inspect\<close> is unfolded by hand, one node at a time.\<close>

declare Inspect.simps(1) [simp del]

section \<open>Files and imports\<close>

text \<open>
  \<^verbatim>\<open>dst.ImportSpec\<close>: the optional alias and the path literal (a \<^verbatim>\<open>*dst.BasicLit\<close>,
  kept as its Kind and its Value).
\<close>

record import_spec =
  imp_Name :: "ident option"
  imp_Path_Kind :: token
  imp_Path_Value :: string

text \<open>
  The top-level declarations of a file. \<open>ImportDecl\<close> is a \<^verbatim>\<open>*dst.GenDecl\<close> whose
  \<^verbatim>\<open>Tok\<close> is \<^verbatim>\<open>token.IMPORT\<close>, with its fields Lparen, Specs, Rparen: the parser puts
  only import specs in it, which is what the type assertion of \<^verbatim>\<open>findImportByPath\<close>
  relies on. Every other declaration (a function, a var, const or type declaration)
  is a node.
\<close>

datatype decl =
    ImportDecl bool "import_spec list" bool
  | OtherDecl node

text \<open>\<^verbatim>\<open>dst.File\<close>: the package name and the declarations.\<close>

record dst_File =
  dst_Name :: ident
  dst_Decls :: "decl list"

text \<open>
  \<^verbatim>\<open>dst.Inspect(df, ...)\<close> on the file: the rule does nothing on the file node, the
  package name, an import declaration, an import spec, its alias and its path literal;
  every other declaration is traversed as above.
\<close>

fun Inspect_decls ::
  "strconv \<Rightarrow> pkgErrorsDstProcessor \<Rightarrow> decl list \<Rightarrow> pkgErrorsDstProcessor \<times> decl list" where
  "Inspect_decls sc p [] = (p, [])"
| "Inspect_decls sc p (d # ds) =
     (case (case d of
              ImportDecl Lparen Specs Rparen \<Rightarrow> (p, d)
            | OtherDecl n \<Rightarrow> (case Inspect sc p n of (p1, n') \<Rightarrow> (p1, OtherDecl n')))
      of (p1, d') \<Rightarrow>
        case Inspect_decls sc p1 ds of (p2, ds') \<Rightarrow> (p2, d' # ds'))"

definition Inspect_file ::
  "strconv \<Rightarrow> pkgErrorsDstProcessor \<Rightarrow> dst_File \<Rightarrow> pkgErrorsDstProcessor \<times> dst_File" where
  "Inspect_file sc p f =
     (case Inspect_decls sc p (dst_Decls f) of (p1, ds) \<Rightarrow> (p1, f\<lparr>dst_Decls := ds\<rparr>))"

subsection \<open>Imports (dst.go)\<close>

text \<open>
  The Go functions hand pointers around: \<^verbatim>\<open>getImports\<close> returns pointers to the
  import declarations of the file and \<^verbatim>\<open>findImportByPath\<close> a pointer to an import
  spec, through which \<^verbatim>\<open>EndProcess\<close> and \<^verbatim>\<open>addImport\<close> write. In the embedding a
  pointer to a declaration is its index in \<^verbatim>\<open>f.Decls\<close>, and a pointer to a spec is
  the index of its declaration with its index among the specs of that declaration.
\<close>

definition isImportDecl :: "decl \<Rightarrow> bool" where
  "isImportDecl d = (case d of ImportDecl Lparen Specs Rparen \<Rightarrow> True | OtherDecl n \<Rightarrow> False)"

definition decl_Specs :: "decl \<Rightarrow> import_spec list" where
  "decl_Specs d = (case d of ImportDecl Lparen Specs Rparen \<Rightarrow> Specs | OtherDecl n \<Rightarrow> [])"

definition set_Specs :: "decl \<Rightarrow> import_spec list \<Rightarrow> decl" where
  "set_Specs d Specs' =
     (case d of ImportDecl Lparen Specs Rparen \<Rightarrow> ImportDecl Lparen Specs' Rparen
      | OtherDecl n \<Rightarrow> d)"

definition getImports :: "dst_File \<Rightarrow> nat list" where
  "getImports f = filter (\<lambda>i. isImportDecl (dst_Decls f ! i)) [0..<length (dst_Decls f)]"

text \<open>\<^verbatim>\<open>importPath\<close>: the unquoted path, or the empty string when unquoting fails.\<close>

definition importPath :: "strconv \<Rightarrow> import_spec \<Rightarrow> string" where
  "importPath sc s = (case Unquote sc (imp_Path_Value s) of Some t \<Rightarrow> t | None \<Rightarrow> [])"

text \<open>The inner loop of \<^verbatim>\<open>findImportByPath\<close>, over the specs of one declaration.\<close>

fun findSpec :: "strconv \<Rightarrow> import_spec list \<Rightarrow> string \<Rightarrow> nat option" where
  "findSpec sc [] ipath = None"
| "findSpec sc (s # ss) ipath =
     (if importPath sc s = ipath then Some 0 else map_option Suc (findSpec sc ss ipath))"

fun findImportByPath :: "strconv \<Rightarrow> dst_File \<Rightarrow> nat list \<Rightarrow> string \<Rightarrow> (nat \<times> nat) option" where
  "findImportByPath sc f [] ipath = None"
| "findImportByPath sc f (imp # imports) ipath =
     (case findSpec sc (decl_Specs (dst_Decls f ! imp)) ipath of
        Some j \<Rightarrow> Some (imp, j)
      | None \<Rightarrow> findImportByPath sc f imports ipath)"

definition addImport :: "strconv \<Rightarrow> dst_File \<Rightarrow> string \<Rightarrow> string \<Rightarrow> nat list \<Rightarrow> dst_File" where
  "addImport sc f ipath name imports =
     (let ident = (if name \<noteq> [] then Some (NewIdent name) else None);
          imp = \<lparr>imp_Name = ident, imp_Path_Kind = STRING, imp_Path_Value = Quote sc ipath\<rparr>
      in
        if length imports > 0 then
          f\<lparr>dst_Decls := (dst_Decls f)[imports ! 0 :=
               set_Specs (dst_Decls f ! (imports ! 0))
                 (decl_Specs (dst_Decls f ! (imports ! 0)) @ [imp])]\<rparr>
        else f\<lparr>dst_Decls := [ImportDecl True [imp] True] @ dst_Decls f\<rparr>)"

definition EndProcess :: "strconv \<Rightarrow> pkgErrorsDstProcessor \<Rightarrow> dst_File \<Rightarrow> bool \<times> dst_File" where
  "EndProcess sc p f =
     (if \<not> changed p then (False, f)
      else
        let imports = getImports f in
        case findImportByPath sc f imports (pkgPath p) of
          Some imp \<Rightarrow> (True, f)
        | None \<Rightarrow>
            (case findImportByPath sc f imports ''errors'' of
               Some (i, j) \<Rightarrow>
                 (True,
                  f\<lparr>dst_Decls := (dst_Decls f)[i :=
                      set_Specs (dst_Decls f ! i)
                        ((decl_Specs (dst_Decls f ! i))[j :=
                           (decl_Specs (dst_Decls f ! i) ! j)
                             \<lparr>imp_Name := None, imp_Path_Value := Quote sc (pkgPath p)\<rparr>])]\<rparr>)
             | None \<Rightarrow> (True, addImport sc f (pkgPath p) [] imports)))"

section \<open>The processor\<close>

text \<open>
  An \<^verbatim>\<open>error\<close> is modelled by its message. \<^verbatim>\<open>decorator.ParseFile\<close> and
  \<^verbatim>\<open>decorator.Fprint\<close> belong to the dst library: \<^verbatim>\<open>Process\<close> takes them as the
  parameters \<open>ParseFile\<close> (name and content to a tree, or an error) and \<open>Fprint\<close> (tree
  to text, or an error).
\<close>

type_synonym error = string

record File =
  Name :: string
  Content :: string
  Error :: "error option"

definition newDstProcessors :: "pkgErrorsDstProcessor list" where
  "newDstProcessors = [newPkgErrorsDstProcessor]"

text \<open>
  The loop of \<^verbatim>\<open>Process\<close> over the rules. Neither \<^verbatim>\<open>dp.Process\<close> nor
  \<^verbatim>\<open>dp.EndProcess\<close> of the one rule there is ever returns an error, so the two error
  returns inside the loop have no counterpart here.
\<close>

fun dps_loop :: "strconv \<Rightarrow> pkgErrorsDstProcessor list \<Rightarrow> dst_File \<Rightarrow> bool \<Rightarrow> bool \<times> dst_File" where
  "dps_loop sc [] df file_changed = (file_changed, df)"
| "dps_loop sc (dp # dps) df file_changed =
     (case Inspect_file sc dp df of (dp1, df1) \<Rightarrow>
      case EndProcess sc dp1 df1 of (ok, df2) \<Rightarrow> dps_loop sc dps df2 (file_changed \<or> ok))"

definition processor_Process ::
  "strconv \<Rightarrow> (string \<Rightarrow> string \<Rightarrow> error + dst_File) \<Rightarrow> (dst_File \<Rightarrow> error + string) \<Rightarrow> File
     \<Rightarrow> error + File" where
  "processor_Process sc ParseFile Fprint f =
     (case ParseFile (Name f) (Content f) of
        Inl err \<Rightarrow> Inl (''error parsing ast, '' @ err)
      | Inr df \<Rightarrow>
          (case dps_loop sc newDstProcessors df False of
             (file_changed, df') \<Rightarrow>
               if \<not> file_changed then Inr \<lparr>Name = Name f, Content = Content f, Error = None\<rparr>
               else
                 (case Fprint df' of
                    Inl err \<Rightarrow> Inl (''error while generating source code based on ast, '' @ err)
                  | Inr buf \<Rightarrow> Inr \<lparr>Name = Name f, Content = buf, Error = None\<rparr>)))"

section \<open>The reader\<close>

text \<open>
  The inputs of \<^verbatim>\<open>NewReader\<close> are values of any type. An \<^verbatim>\<open>*os.File\<close> is given by
  its name and by what \<^verbatim>\<open>io.ReadAll\<close> returns on it (the content read and the error,
  if any), an \<^verbatim>\<open>io.Reader\<close> by what \<^verbatim>\<open>io.ReadAll\<close> returns, a string is a path, and
  \<open>OtherInput\<close> is a value of any other type.
\<close>

datatype input =
    OsFile string string "error option"
  | IoReader string "error option"
  | PathString string
  | OtherInput

text \<open>
  The file system is a parameter: \<open>Stat\<close> is \<^verbatim>\<open>os.Stat\<close> (an error, or whether the
  path is a directory), \<open>ReadFile\<close> is \<^verbatim>\<open>os.ReadFile\<close> (the content read and the
  error, if any), and \<open>Walk\<close> gives the calls \<^verbatim>\<open>filepath.Walk\<close> makes to its function
  argument, in order, for as long as that function returns nil: a call carries the path
  and either an error or whether the path is a directory.
\<close>

datatype walk_call = WalkErr string error | WalkInfo string bool

record FileSystem =
  Stat :: "string \<Rightarrow> error + bool"
  ReadFile :: "string \<Rightarrow> string \<times> error option"
  Walk :: "string \<Rightarrow> walk_call list"

text \<open>The loop of \<^verbatim>\<open>Read\<close> that validates the inputs: the error it returns, if any.\<close>

fun Read_loop :: "FileSystem \<Rightarrow> input list \<Rightarrow> error option" where
  "Read_loop fs [] = None"
| "Read_loop fs (p # inputs) =
     (case p of
        OsFile name content err \<Rightarrow> Read_loop fs inputs
      | IoReader content err \<Rightarrow> Read_loop fs inputs
      | PathString s \<Rightarrow>
          (case Stat fs s of
             Inl err \<Rightarrow> Some (''the input source is not a valid file or directory, '' @ err)
           | Inr fileInfo \<Rightarrow> Read_loop fs inputs)
      | OtherInput \<Rightarrow> Some ''the input source only supports *os.File, io.Reader and string'')"

text \<open>The decimal digits of a number, for \<^verbatim>\<open>fmt.Sprintf("%s#%d", s, i)\<close>.\<close>

function itoa :: "nat \<Rightarrow> string" where
  "itoa n = (if n < 10 then [''0123456789'' ! n] else itoa (n div 10) @ [''0123456789'' ! (n mod 10)])"
  by pat_completeness auto
termination
  by (relation "measure id") auto

declare itoa.simps [simp del]

text \<open>
  The closure \<^verbatim>\<open>formatName\<close> of \<^verbatim>\<open>read\<close>, with its counter \<^verbatim>\<open>i\<close> passed in and
  returned.
\<close>

definition formatName :: "nat \<Rightarrow> string \<Rightarrow> string \<times> nat" where
  "formatName i s = ((if i > 0 then s @ ''#'' @ itoa i else s), i + 1)"

definition readPath :: "FileSystem \<Rightarrow> string \<Rightarrow> File list" where
  "readPath fs p =
     (let isGoFile = HasSuffix p ''.go'' in
      if \<not> isGoFile then []
      else
        (case ReadFile fs p of
           (content, err) \<Rightarrow> [\<lparr>Name = p, Content = content, Error = err\<rparr>]))"

text \<open>
  The function \<^verbatim>\<open>readDir\<close> hands to \<^verbatim>\<open>filepath.Walk\<close>, run over the calls: the files
  sent to the channel, and the error at which the walk stopped, which
  \<^verbatim>\<open>filepath.Walk\<close> returns.
\<close>

fun walkFn :: "FileSystem \<Rightarrow> walk_call list \<Rightarrow> File list \<times> error option" where
  "walkFn fs [] = ([], None)"
| "walkFn fs (c # calls) =
     (case c of
        WalkErr p err \<Rightarrow> ([], Some err)
      | WalkInfo p isDir \<Rightarrow>
          (case walkFn fs calls of
             (files, e) \<Rightarrow> ((if \<not> isDir then readPath fs p else []) @ files, e)))"

definition readDir :: "FileSystem \<Rightarrow> string \<Rightarrow> File list" where
  "readDir fs dir =
     (case walkFn fs (Walk fs dir) of
        (files, e) \<Rightarrow>
          files @ (case e of
                     None \<Rightarrow> []
                   | Some err \<Rightarrow> [\<lparr>Name = dir, Content = [], Error = Some err\<rparr>]))"

text \<open>
  The goroutine \<^verbatim>\<open>read\<close>. The channel is modelled by the list of the files sent on
  it, in order, until it is closed.
\<close>

fun read_loop :: "FileSystem \<Rightarrow> nat \<Rightarrow> input list \<Rightarrow> File list" where
  "read_loop fs i [] = []"
| "read_loop fs i (p # inputs) =
     (case p of
        OsFile name content err \<Rightarrow>
          (case formatName i name of
             (s, i') \<Rightarrow> \<lparr>Name = s, Content = content, Error = err\<rparr> # read_loop fs i' inputs)
      | IoReader content err \<Rightarrow>
          (case formatName i ''io.Reader'' of
             (s, i') \<Rightarrow> \<lparr>Name = s, Content = content, Error = err\<rparr> # read_loop fs i' inputs)
      | PathString s \<Rightarrow>
          (case Stat fs s of
             Inl err \<Rightarrow> [\<lparr>Name = s, Content = [], Error = Some err\<rparr>]
           | Inr isDir \<Rightarrow> if isDir then readDir fs s else readPath fs s)
          @ read_loop fs i inputs
      | OtherInput \<Rightarrow> read_loop fs i inputs)"

definition read :: "FileSystem \<Rightarrow> input list \<Rightarrow> File list" where
  "read fs inputs = read_loop fs 0 inputs"

text \<open>
  \<^verbatim>\<open>Read\<close> validates the inputs and then starts the goroutine, which looks at the
  file system again, later: \<open>fs\<close> is the file system as \<^verbatim>\<open>Read\<close> sees it and \<open>fs'\<close>
  the file system as the goroutine sees it.
\<close>

definition Read :: "FileSystem \<Rightarrow> FileSystem \<Rightarrow> input list \<Rightarrow> error + File list" where
  "Read fs fs' inputs =
     (if length inputs = 0 then Inl ''no source to read''
      else
        (case Read_loop fs inputs of
           Some err \<Rightarrow> Inl err
         | None \<Rightarrow> Inr (read fs' inputs)))"

text \<open>File systems for the examples: one where nothing exists, one where every path is a
  file, one where every path is a file that cannot be read.\<close>

definition fs_missing :: FileSystem where
  "fs_missing =
     \<lparr>Stat = (\<lambda>p. Inl ''no such file or directory''),
      ReadFile = (\<lambda>p. ([], Some ''no such file or directory'')),
      Walk = (\<lambda>p. [WalkErr p ''no such file or directory''])\<rparr>"

definition fs_present :: FileSystem where
  "fs_present =
     \<lparr>Stat = (\<lambda>p. Inr False),
      ReadFile = (\<lambda>p. (''package a'', None)),
      Walk = (\<lambda>p. [WalkInfo p False])\<rparr>"

definition fs_unreadable :: FileSystem where
  "fs_unreadable =
     \<lparr>Stat = (\<lambda>p. Inr False),
      ReadFile = (\<lambda>p. ([], Some ''permission denied'')),
      Walk = (\<lambda>p. [WalkInfo p False])\<rparr>"

section \<open>The pipeline\<close>

text \<open>
  The closure \<^verbatim>\<open>fn\<close> of \<^verbatim>\<open>(*ErrFix).Process\<close>: the work of one unit, with the
  processor \<open>P\<close> and the writer \<open>W\<close> as parameters. Its result is the error of the unit,
  if any.
\<close>

definition fn ::
  "(File \<Rightarrow> error + File) \<Rightarrow> (File \<Rightarrow> File \<Rightarrow> error option) \<Rightarrow> File \<Rightarrow> error option" where
  "fn P W f =
     (case Error f of
        Some e \<Rightarrow> Some (''error while reading from '' @ Name f @ '', '' @ e)
      | None \<Rightarrow>
          (case P f of
             Inl err \<Rightarrow> Some err
           | Inr f2 \<Rightarrow> W f f2))"

text \<open>
  \<^verbatim>\<open>(*ErrFix).Process\<close> runs its units concurrently, so it is modelled by its states
  and the events that change them; a run is the list of its events, in the order in
  which they happen. The state holds the files still to come on the channel \<^verbatim>\<open>ch\<close>
  (closed after the last one), the content of the channel \<^verbatim>\<open>errCh\<close>, whether
  control is still in the loop, the variable \<^verbatim>\<open>err\<close>, the units that \<^verbatim>\<open>wg.Go\<close> has
  started and that have not returned, the first error the group has recorded (what
  \<^verbatim>\<open>wg.Wait\<close> returns) and, for the record, every unit started so far.
\<close>

record ErrFix_state =
  st_ch :: "File list"
  st_errCh :: "error list"
  st_loop :: bool
  st_err :: "error option"
  st_active :: "File list"
  st_group_err :: "error option"
  st_started :: "File list"

text \<open>
  The events: the \<^verbatim>\<open>select\<close> receives a file and \<^verbatim>\<open>wg.Go\<close> starts its unit, which
  it does once fewer than 8 units are active; the \<^verbatim>\<open>select\<close> finds \<^verbatim>\<open>ch\<close> closed and
  leaves the loop; the \<^verbatim>\<open>select\<close> receives from \<^verbatim>\<open>errCh\<close> and leaves the loop; the
  active unit at a given position returns, and the group keeps its error if it is the
  first. No event sends on \<^verbatim>\<open>errCh\<close>: no statement of the source does.
\<close>

datatype event = Receive | Closed | ReceiveErr | Return nat

definition ErrFix_init :: "File list \<Rightarrow> ErrFix_state" where
  "ErrFix_init files =
     \<lparr>st_ch = files, st_errCh = [], st_loop = True, st_err = None, st_active = [],
      st_group_err = None, st_started = []\<rparr>"

text \<open>
  Modelled from the spec: the group \<^verbatim>\<open>wg\<close> (an \<^verbatim>\<open>errgroup.Group\<close>, which is not
  part of the repository) starts a unit only while fewer than 8 are active, keeps the
  first error its units return and drops the later ones, and \<^verbatim>\<open>Wait\<close> returns that
  error once every unit has returned. The loop around the group is the source's.
\<close>

definition ErrFix_step ::
  "(File \<Rightarrow> error option) \<Rightarrow> event \<Rightarrow> ErrFix_state \<Rightarrow> ErrFix_state option" where
  "ErrFix_step unit ev s =
     (case ev of
        Receive \<Rightarrow>
          (case st_ch s of
             f # rest \<Rightarrow>
               if st_loop s \<and> length (st_active s) < 8
               then Some (s\<lparr>st_ch := rest, st_active := st_active s @ [f],
                             st_started := st_started s @ [f]\<rparr>)
               else None
           | [] \<Rightarrow> None)
      | Closed \<Rightarrow>
          if st_loop s \<and> st_ch s = [] then Some (s\<lparr>st_loop := False\<rparr>) else None
      | ReceiveErr \<Rightarrow>
          (case st_errCh s of
             e # rest \<Rightarrow>
               if st_loop s then Some (s\<lparr>st_errCh := rest, st_err := Some e, st_loop := False\<rparr>)
               else None
           | [] \<Rightarrow> None)
      | Return i \<Rightarrow>
          if i < length (st_active s)
          then Some (s\<lparr>st_active := take i (st_active s) @ drop (Suc i) (st_active s),
                        st_group_err :=
                          (case st_group_err s of
                             Some e \<Rightarrow> Some e
                           | None \<Rightarrow> unit (st_active s ! i))\<rparr>)
          else None)"

fun ErrFix_run ::
  "(File \<Rightarrow> error option) \<Rightarrow> event list \<Rightarrow> ErrFix_state \<Rightarrow> ErrFix_state option" where
  "ErrFix_run unit [] s = Some s"
| "ErrFix_run unit (ev # evs) s =
     (case ErrFix_step unit ev s of None \<Rightarrow> None | Some s' \<Rightarrow> ErrFix_run unit evs s')"

text \<open>
  What \<^verbatim>\<open>Process\<close> returns in a state, if it returns there: after the loop, the
  variable \<^verbatim>\<open>err\<close> when it is set, otherwise what \<^verbatim>\<open>wg.Wait\<close> returns once every
  unit has returned.
\<close>

definition ErrFix_result :: "ErrFix_state \<Rightarrow> error option option" where
  "ErrFix_result s =
     (if st_loop s then None
      else if st_err s \<noteq> None then Some (st_err s)
      else if st_active s = [] then Some (st_group_err s)
      else None)"

text \<open>Two files for the example: one that could not be read, one that could.\<close>

definition bad_file :: File where
  "bad_file = \<lparr>Name = ''bad.go'', Content = [], Error = Some ''permission denied''\<rparr>"

definition good_file :: File where
  "good_file = \<lparr>Name = ''good.go'', Content = ''package good'', Error = None\<rparr>"

subsection \<open>An instance of the standard library parameters\<close>

text \<open>
  For evaluating examples: \<open>strconv_plain\<close> agrees with Go's \<^verbatim>\<open>strconv\<close> on the strings
  the examples use, that is, \<open>Quote\<close> on text without quotes, backslashes and
  unprintable characters, and \<open>Unquote\<close> on such text between double quotes.
\<close>

definition Unquote_plain :: "string \<Rightarrow> string option" where
  "Unquote_plain s =
     (if 2 \<le> length s \<and> hd s = CHR 0x22 \<and> last s = CHR 0x22
         \<and> list_all (\<lambda>c. c \<noteq> CHR 0x22 \<and> c \<noteq> CHR 0x5C \<and> c \<noteq> CHR 0x0A) (butlast (tl s))
      then Some (butlast (tl s)) else None)"

definition Quote_plain :: "string \<Rightarrow> string" where
  "Quote_plain s = [CHR 0x22] @ s @ [CHR 0x22]"

definition strconv_plain :: strconv where
  "strconv_plain = \<lparr>Unquote = Unquote_plain, Quote = Quote_plain\<rparr>"

subsection \<open>The import table\<close>

text \<open>
  What the claims about imports speak of: the import specs of a file, in order, and
  the number of them that import a given path.
\<close>

definition all_import_specs :: "dst_File \<Rightarrow> import_spec list" where
  "all_import_specs f = concat (map decl_Specs (dst_Decls f))"

definition count_import :: "strconv \<Rightarrow> dst_File \<Rightarrow> string \<Rightarrow> nat" where
  "count_import sc f ipath = length (filter (\<lambda>s. importPath sc s = ipath) (all_import_specs f))"

subsection \<open>Nodes that match a shape\<close>

text \<open>
  A node matches when the rule reports a change on it; a tree matches when one of its
  nodes does, and a file when one of its declarations does (the rule reports nothing on
  an import declaration).
\<close>

definition node_match :: "strconv \<Rightarrow> pkgErrorsDstProcessor \<Rightarrow> node \<Rightarrow> bool" where
  "node_match sc p n = changed (fst (pkgErrors_Process sc (p\<lparr>changed := False\<rparr>) n))"

fun tree_match :: "strconv \<Rightarrow> pkgErrorsDstProcessor \<Rightarrow> node \<Rightarrow> bool" where
  "tree_match sc p (Ident i) = node_match sc p (Ident i)"
| "tree_match sc p (BasicLit k v) = node_match sc p (BasicLit k v)"
| "tree_match sc p (BinaryExpr X Op Y) =
     (node_match sc p (BinaryExpr X Op Y) \<or> tree_match sc p X \<or> tree_match sc p Y)"
| "tree_match sc p (CallExpr Fun Args e) =
     (node_match sc p (CallExpr Fun Args e) \<or> tree_match sc p Fun
        \<or> list_ex (tree_match sc p) Args)"
| "tree_match sc p (SelectorExpr X Sel) =
     (node_match sc p (SelectorExpr X Sel) \<or> tree_match sc p X)"
| "tree_match sc p (TypeAssertExpr X T) =
     (node_match sc p (TypeAssertExpr X T) \<or> tree_match sc p X
        \<or> (case T of None \<Rightarrow> False | Some t \<Rightarrow> tree_match sc p t))"
| "tree_match sc p (ReturnStmt Results) =
     (node_match sc p (ReturnStmt Results) \<or> list_ex (tree_match sc p) Results)"
| "tree_match sc p (IfStmt Init Cond Body Else) =
     (node_match sc p (IfStmt Init Cond Body Else)
        \<or> (case Init of None \<Rightarrow> False | Some i \<Rightarrow> tree_match sc p i)
        \<or> tree_match sc p Cond \<or> tree_match sc p Body
        \<or> (case Else of None \<Rightarrow> False | Some e \<Rightarrow> tree_match sc p e))"
| "tree_match sc p (OtherNode k ns) =
     (node_match sc p (OtherNode k ns) \<or> list_ex (tree_match sc p) ns)"

definition file_match :: "strconv \<Rightarrow> pkgErrorsDstProcessor \<Rightarrow> dst_File \<Rightarrow> bool" where
  "file_match sc p df =
     list_ex (\<lambda>d. case d of ImportDecl Lparen Specs Rparen \<Rightarrow> False
                  | OtherDecl n \<Rightarrow> tree_match sc p n) (dst_Decls df)"

subsection \<open>Notions for a second run\<close>

text \<open>
  A rule is \<open>std\<close> when it is the rule \<^verbatim>\<open>newPkgErrorsDstProcessor\<close> builds, whatever
  its flag. \<open>rewrite1\<close> is the rewrite of a single node by such a rule, \<open>img sc a b\<close>
  says that \<open>b\<close> is what a traversal of \<open>a\<close> by such a rule leaves. A node is \<open>quiet\<close>
  when such a rule rewrites neither the node nor any node below it, and declarations
  are \<open>settled\<close> when each of them that is traversed is quiet.
\<close>

definition std :: "pkgErrorsDstProcessor \<Rightarrow> bool" where
  "std p = (p\<lparr>changed := False\<rparr> = newPkgErrorsDstProcessor)"

definition rewrite1 :: "strconv \<Rightarrow> node \<Rightarrow> node" where
  "rewrite1 sc n = snd (pkgErrors_Process sc newPkgErrorsDstProcessor n)"

definition img :: "strconv \<Rightarrow> node \<Rightarrow> node \<Rightarrow> bool" where
  "img sc a b = (\<exists>q. std q \<and> b = snd (Inspect sc q a))"

fun quiet :: "strconv \<Rightarrow> node \<Rightarrow> bool" where
  "quiet sc (Ident i) = True"
| "quiet sc (BasicLit k v) = True"
| "quiet sc (BinaryExpr X Op Y) = (quiet sc X \<and> quiet sc Y)"
| "quiet sc (CallExpr Fun Args e) =
     (rewrite1 sc (CallExpr Fun Args e) = CallExpr Fun Args e
      \<and> quiet sc Fun \<and> list_all (quiet sc) Args)"
| "quiet sc (SelectorExpr X Sel) = quiet sc X"
| "quiet sc (TypeAssertExpr X T) =
     (rewrite1 sc (TypeAssertExpr X T) = TypeAssertExpr X T
      \<and> quiet sc X \<and> (case T of None \<Rightarrow> True | Some t \<Rightarrow> quiet sc t))"
| "quiet sc (ReturnStmt rs) =
     (rewrite1 sc (ReturnStmt rs) = ReturnStmt rs \<and> list_all (quiet sc) rs)"
| "quiet sc (IfStmt Init Cond Body Else) =
     (rewrite1 sc (IfStmt Init Cond Body Else) = IfStmt Init Cond Body Else
      \<and> (case Init of None \<Rightarrow> True | Some t \<Rightarrow> quiet sc t)
      \<and> quiet sc Cond \<and> quiet sc Body
      \<and> (case Else of None \<Rightarrow> True | Some t \<Rightarrow> quiet sc t))"
| "quiet sc (OtherNode kd ns) = list_all (quiet sc) ns"






text \<open>
  For the examples: a file whose one function is \<^verbatim>\<open>func foo() { return err }\<close>, a
  parser that knows two texts (the input, and the output, which it parses to the
  rewritten tree) and a printer that prints every tree as the output; and the file
  \<^verbatim>\<open>import ("errors"); var ErrNotFound = errors.New("not found")\<close>.
\<close>

definition demo_tree :: dst_File where
  "demo_tree =
     \<lparr>dst_Name = NewIdent ''foo'',
      dst_Decls =
        [OtherDecl (OtherNode ''FuncDecl''
           [Ident (NewIdent ''foo''), OtherNode ''FuncType'' [],
            OtherNode ''BlockStmt'' [ReturnStmt [Ident (NewIdent ''err'')]]])]\<rparr>"

definition demo_ParseFile :: "string \<Rightarrow> string \<Rightarrow> error + dst_File" where
  "demo_ParseFile name content =
     (if content = ''input'' then Inr demo_tree
      else if content = ''output''
      then Inr (snd (dps_loop strconv_plain newDstProcessors demo_tree False))
      else Inl ''syntax error'')"

definition demo_Fprint :: "dst_File \<Rightarrow> error + string" where
  "demo_Fprint df = Inr ''output''"






section \<open>Properties of the rewrite rule\<close>

subsection \<open>Helper lemmas\<close>

lemma isName_iff: "isName n name \<longleftrightarrow> (\<exists>i. n = Ident i \<and> ident_String i = name)"
  by (cases n) (auto simp: isName_def)

lemma isName_NewIdent [simp]: "isName (Ident (NewIdent a)) b \<longleftrightarrow> a = b"
  by (simp add: isName_def NewIdent_def ident_String_def)

lemma withStackExpr_new:
  "withStackExpr newPkgErrorsDstProcessor =
     CallExpr (SelectorExpr (Ident (NewIdent ''errors'')) (NewIdent ''WithStack''))
       [Ident (NewIdent ''err'')] False"
  by (simp add: withStackExpr_def newPkgErrorsDstProcessor_def)

lemma causeExpr_new:
  "causeExpr newPkgErrorsDstProcessor =
     CallExpr (SelectorExpr (Ident (NewIdent ''errors'')) (NewIdent ''Cause''))
       [Ident (NewIdent ''err'')] False"
  by (simp add: causeExpr_def newPkgErrorsDstProcessor_def)

lemma compareErr_new:
  "compareErr newPkgErrorsDstProcessor X Op Y yIsNil \<longleftrightarrow>
     isName X ''err'' \<and> (Op = EQL \<or> Op = NEQ) \<and> (yIsNil \<longleftrightarrow> isName Y ''nil'')"
  by (auto simp: compareErr_def newPkgErrorsDstProcessor_def Let_def)

lemma list_update_last: "xs \<noteq> [] \<Longrightarrow> xs[length xs - Suc 0 := x] = butlast xs @ [x]"
  by (induction xs) (auto split: nat.splits)

subsection \<open>Return statements\<close>

text \<open>
  C1. A return statement with at least one result whose last result is the identifier
  \<^verbatim>\<open>err\<close> gets \<^verbatim>\<open>errors.WithStack(err)\<close> in the place of that last result, the
  earlier results staying as they are, and the rule reports a change. Every other
  return statement (no result, or a last result that is \<^verbatim>\<open>nil\<close> or any other
  expression) is left as it is, with no change reported.
\<close>

theorem fixReturnStmt_wraps_last_err:
  "fixReturnStmt newPkgErrorsDstProcessor Results =
     (if Results \<noteq> [] \<and> (\<exists>i. last Results = Ident i \<and> ident_String i = ''err'')
      then (butlast Results @
              [CallExpr (SelectorExpr (Ident (NewIdent ''errors'')) (NewIdent ''WithStack''))
                 [Ident (NewIdent ''err'')] False], True)
      else (Results, False))"
proof (cases "Results = []")
  case True
  then show ?thesis by (simp add: fixReturnStmt_def)
next
  case False
  then have l: "Results ! (length Results - Suc 0) = last Results"
    by (simp add: last_conv_nth)
  have e: "errIdent newPkgErrorsDstProcessor = ''err''"
    by (simp add: newPkgErrorsDstProcessor_def)
  show ?thesis using False
    by (simp add: fixReturnStmt_def l e list_update_last isName_iff withStackExpr_new)
qed

theorem fixReturnStmt_wraps_last_err_witness:
  "fixReturnStmt newPkgErrorsDstProcessor
     [BasicLit (OtherToken ''INT'') ''1'', Ident (NewIdent ''err'')] =
     ([BasicLit (OtherToken ''INT'') ''1'',
       CallExpr (SelectorExpr (Ident (NewIdent ''errors'')) (NewIdent ''WithStack''))
         [Ident (NewIdent ''err'')] False], True)
   \<and> fixReturnStmt newPkgErrorsDstProcessor [Ident (NewIdent ''nil'')] =
       ([Ident (NewIdent ''nil'')], False)
   \<and> fixReturnStmt newPkgErrorsDstProcessor [] = ([], False)"
  using fixReturnStmt_wraps_last_err
      [of "[BasicLit (OtherToken ''INT'') ''1'', Ident (NewIdent ''err'')]"]
    fixReturnStmt_wraps_last_err [of "[Ident (NewIdent ''nil'')]"]
    fixReturnStmt_wraps_last_err [of "[]"]
  by (simp add: NewIdent_def ident_String_def)

subsection \<open>If statements\<close>

text \<open>
  C2. On a condition \<^verbatim>\<open>err == X\<close> or \<^verbatim>\<open>err != X\<close> where X is not the identifier
  \<^verbatim>\<open>nil\<close>, the left operand becomes \<^verbatim>\<open>errors.Cause(err)\<close> and the operator and the
  right operand stay. A condition whose operands are \<^verbatim>\<open>err\<close> and \<^verbatim>\<open>nil\<close> is left
  as it is, whatever the operator. On \<^verbatim>\<open>err != nil && err != X\<close> and
  \<^verbatim>\<open>err != nil || err != X\<close>, with X not \<^verbatim>\<open>nil\<close>, only the left operand of the
  second comparison becomes \<^verbatim>\<open>errors.Cause(err)\<close>.
\<close>

theorem fixIfStmt_compares_cause:
  "(isName X ''err'' \<and> (Op = EQL \<or> Op = NEQ) \<and> \<not> isName Y ''nil'' \<longrightarrow>
      fixIfStmt newPkgErrorsDstProcessor (BinaryExpr X Op Y) =
        (BinaryExpr
           (CallExpr (SelectorExpr (Ident (NewIdent ''errors'')) (NewIdent ''Cause''))
              [Ident (NewIdent ''err'')] False)
           Op Y, True))
   \<and> (isName X ''err'' \<and> isName Y ''nil'' \<longrightarrow>
      fixIfStmt newPkgErrorsDstProcessor (BinaryExpr X Op Y) = (BinaryExpr X Op Y, False))
   \<and> (isName AX ''err'' \<and> isName AY ''nil'' \<and> isName BX ''err'' \<and> \<not> isName BY ''nil''
        \<and> (LOp = LAND \<or> LOp = LOR) \<longrightarrow>
      fixIfStmt newPkgErrorsDstProcessor
          (BinaryExpr (BinaryExpr AX NEQ AY) LOp (BinaryExpr BX NEQ BY)) =
        (BinaryExpr (BinaryExpr AX NEQ AY) LOp
           (BinaryExpr
              (CallExpr (SelectorExpr (Ident (NewIdent ''errors'')) (NewIdent ''Cause''))
                 [Ident (NewIdent ''err'')] False)
              NEQ BY), True))"
  by (auto simp: fixIfStmt_def compareErr_new causeExpr_new isName_iff)

theorem fixIfStmt_compares_cause_witness:
  "fixIfStmt newPkgErrorsDstProcessor
      (BinaryExpr (Ident (NewIdent ''err'')) NEQ (Ident (NewIdent ''ErrNotFound''))) =
     (BinaryExpr
        (CallExpr (SelectorExpr (Ident (NewIdent ''errors'')) (NewIdent ''Cause''))
           [Ident (NewIdent ''err'')] False)
        NEQ (Ident (NewIdent ''ErrNotFound'')), True)
   \<and> fixIfStmt newPkgErrorsDstProcessor
        (BinaryExpr (Ident (NewIdent ''err'')) EQL (Ident (NewIdent ''nil''))) =
       (BinaryExpr (Ident (NewIdent ''err'')) EQL (Ident (NewIdent ''nil'')), False)
   \<and> fixIfStmt newPkgErrorsDstProcessor
        (BinaryExpr (BinaryExpr (Ident (NewIdent ''err'')) NEQ (Ident (NewIdent ''nil''))) LAND
           (BinaryExpr (Ident (NewIdent ''err'')) NEQ (Ident (NewIdent ''ErrNotFound'')))) =
       (BinaryExpr (BinaryExpr (Ident (NewIdent ''err'')) NEQ (Ident (NewIdent ''nil''))) LAND
          (BinaryExpr
             (CallExpr (SelectorExpr (Ident (NewIdent ''errors'')) (NewIdent ''Cause''))
                [Ident (NewIdent ''err'')] False)
             NEQ (Ident (NewIdent ''ErrNotFound''))), True)"
  using fixIfStmt_compares_cause
      [where X = "Ident (NewIdent ''err'')" and Op = NEQ and Y = "Ident (NewIdent ''ErrNotFound'')"
         and AX = "Ident (NewIdent ''err'')" and AY = "Ident (NewIdent ''nil'')"
         and BX = "Ident (NewIdent ''err'')" and BY = "Ident (NewIdent ''ErrNotFound'')"
         and LOp = LAND]
    fixIfStmt_compares_cause
      [where X = "Ident (NewIdent ''err'')" and Op = EQL and Y = "Ident (NewIdent ''nil'')"]
  by simp

text \<open>
  C10. The compound shape is wider than \<^verbatim>\<open>err != nil && err != X\<close>: for \<^verbatim>\<open>A && B\<close>
  or \<^verbatim>\<open>A || B\<close> where A compares \<^verbatim>\<open>err\<close> with \<^verbatim>\<open>nil\<close> by \<^verbatim>\<open>==\<close> or
  \<^verbatim>\<open>!=\<close> and B compares \<^verbatim>\<open>err\<close> with something other than \<^verbatim>\<open>nil\<close> by
  \<^verbatim>\<open>==\<close> or \<^verbatim>\<open>!=\<close>, the left operand of B becomes \<^verbatim>\<open>errors.Cause(err)\<close>;
  \<^verbatim>\<open>err == nil || err != ErrX\<close> is such a condition.
\<close>

theorem fixIfStmt_compound_any_comparison:
  assumes "LOp = LAND \<or> LOp = LOR"
    and "isName AX ''err''" and "AOp = EQL \<or> AOp = NEQ" and "isName AY ''nil''"
    and "isName BX ''err''" and "BOp = EQL \<or> BOp = NEQ" and "\<not> isName BY ''nil''"
  shows "fixIfStmt newPkgErrorsDstProcessor
          (BinaryExpr (BinaryExpr AX AOp AY) LOp (BinaryExpr BX BOp BY)) =
        (BinaryExpr (BinaryExpr AX AOp AY) LOp
           (BinaryExpr
              (CallExpr (SelectorExpr (Ident (NewIdent ''errors'')) (NewIdent ''Cause''))
                 [Ident (NewIdent ''err'')] False)
              BOp BY), True)"
  using assms by (auto simp: fixIfStmt_def compareErr_new causeExpr_new isName_iff)

theorem fixIfStmt_compound_any_comparison_witness:
  "fixIfStmt newPkgErrorsDstProcessor
     (BinaryExpr (BinaryExpr (Ident (NewIdent ''err'')) EQL (Ident (NewIdent ''nil''))) LOR
        (BinaryExpr (Ident (NewIdent ''err'')) NEQ (Ident (NewIdent ''ErrX'')))) =
     (BinaryExpr (BinaryExpr (Ident (NewIdent ''err'')) EQL (Ident (NewIdent ''nil''))) LOR
        (BinaryExpr
           (CallExpr (SelectorExpr (Ident (NewIdent ''errors'')) (NewIdent ''Cause''))
              [Ident (NewIdent ''err'')] False)
           NEQ (Ident (NewIdent ''ErrX''))), True)"
  by (rule fixIfStmt_compound_any_comparison) simp_all

subsection \<open>Calls of fmt.Errorf\<close>

lemma HasSuffix_iff: "HasSuffix s suffix \<longleftrightarrow> (\<exists>pre. s = pre @ suffix)"
proof
  assume "HasSuffix s suffix"
  then have "s = take (length s - length suffix) s @ suffix"
    by (metis HasSuffix_def append_take_drop_id)
  then show "\<exists>pre. s = pre @ suffix" ..
next
  assume "\<exists>pre. s = pre @ suffix"
  then show "HasSuffix s suffix" by (auto simp: HasSuffix_def)
qed

lemma TrimRight_append:
  "set seps \<subseteq> set cutset \<Longrightarrow> body = [] \<or> last body \<notin> set cutset \<Longrightarrow>
     TrimRight (body @ seps) cutset = body"
proof -
  assume s: "set seps \<subseteq> set cutset" and b: "body = [] \<or> last body \<notin> set cutset"
  have 1: "dropWhile (\<lambda>c. c \<in> set cutset) (rev seps @ rev body) =
             dropWhile (\<lambda>c. c \<in> set cutset) (rev body)"
    using s by (intro dropWhile_append2) auto
  have 2: "dropWhile (\<lambda>c. c \<in> set cutset) (rev body) = rev body"
    using b by (cases body rule: rev_cases) auto
  show ?thesis by (simp add: TrimRight_def 1 2)
qed

lemma isPkgSelector_fmt_not_errors:
  "isPkgSelector Fun ''fmt'' b \<Longrightarrow> \<not> isPkgSelector Fun ''errors'' c"
  by (auto simp: isPkgSelector_def isTopName_def split: node.splits)

lemma ident_String_NewIdent: "ident_String (NewIdent a) = a"
  by (simp add: NewIdent_def ident_String_def)

text \<open>
  C3 (as amended). A call to \<^verbatim>\<open>fmt.Errorf\<close> whose first argument is a string literal
  (one that unquotes) is rewritten. If the format is \<open>body @ seps @ ''%v''\<close>, where
  \<open>seps\<close> is the longest run of colons, commas and spaces before the verb, and the last
  of two or more arguments is the identifier \<^verbatim>\<open>err\<close>, the call becomes
  \<^verbatim>\<open>errors.Wrapf\<close> with the arguments \<^verbatim>\<open>err\<close>, the quoted \<open>body\<close>, and the original
  arguments without the first and the last. Otherwise the target becomes
  \<^verbatim>\<open>errors.Errorf\<close> and the arguments stay. A call without arguments, or whose first
  argument is not a string literal, is left as it is and no change is reported.
\<close>

theorem fixCallExpr_fmt_Errorf:
  assumes "isPkgSelector Fun ''fmt'' ''Errorf''"
  shows
   "(Args = BasicLit STRING Value # middle @ [e] \<and> isName e ''err''
       \<and> Unquote sc Value = Some (body @ seps @ ''%v'')
       \<and> set seps \<subseteq> set '' :,'' \<and> (body = [] \<or> last body \<notin> set '' :,'') \<longrightarrow>
     fixCallExpr sc newPkgErrorsDstProcessor Fun Args =
       ((SelectorExpr (Ident (NewIdent ''errors'')) (NewIdent ''Wrapf''),
         [e, BasicLit STRING (Quote sc body)] @ middle), True))
    \<and> (Args = BasicLit STRING Value # rest \<and> Unquote sc Value = Some format
       \<and> \<not> (rest \<noteq> [] \<and> isName (last rest) ''err'' \<and> (\<exists>pre. format = pre @ ''%v'')) \<longrightarrow>
     fixCallExpr sc newPkgErrorsDstProcessor Fun Args =
       ((SelectorExpr (Ident (NewIdent ''errors'')) (NewIdent ''Errorf''), Args), True))
    \<and> (Args = [] \<or> (\<forall>v. hd Args \<noteq> BasicLit STRING v) \<or> (\<exists>v. hd Args = BasicLit STRING v \<and> Unquote sc v = None) \<longrightarrow>
     fixCallExpr sc newPkgErrorsDstProcessor Fun Args = ((Fun, Args), False))"
proof -
  have n: "\<not> isPkgSelector Fun ''errors'' x" for x
    using assms by (rule isPkgSelector_fmt_not_errors)
  have c: "errorsIdent newPkgErrorsDstProcessor = ''errors''"
    "wrapfIdent newPkgErrorsDstProcessor = ''Wrapf''"
    "errorfIdent newPkgErrorsDstProcessor = ''Errorf''"
    "errIdent newPkgErrorsDstProcessor = ''err''"
    by (simp_all add: newPkgErrorsDstProcessor_def)
  have 1: "fixCallExpr sc newPkgErrorsDstProcessor Fun Args =
       ((SelectorExpr (Ident (NewIdent ''errors'')) (NewIdent ''Wrapf''),
         [e, BasicLit STRING (Quote sc body)] @ middle), True)"
    if a: "Args = BasicLit STRING Value # middle @ [e]" and e: "isName e ''err''"
      and u: "Unquote sc Value = Some (body @ seps @ ''%v'')"
      and s: "set seps \<subseteq> set '' :,''" and b: "body = [] \<or> last body \<notin> set '' :,''"
  proof -
    have h: "HasSuffix (body @ seps @ ''%v'') ''%v''"
      unfolding HasSuffix_iff by (metis append.assoc)
    have t: "TrimRight (take (length (body @ seps @ ''%v'') - length ''%v'') (body @ seps @ ''%v''))
               '' :,'' = body"
      using TrimRight_append [OF s b] by simp
    have l: "Args ! (length Args - 1) = e" by (simp add: a nth_append)
    have m: "drop 1 (take (length Args - 1) Args) = middle" by (simp add: a)
    have g: "2 \<le> length Args" "length Args \<noteq> 0" "Args ! 0 = BasicLit STRING Value"
      by (simp_all add: a)
    show ?thesis
      unfolding fixCallExpr_def Let_def
      by (simp only: n assms c g u h t l m e if_True if_False node.case option.case simp_thms
          append.simps)
  qed
  have 2: "fixCallExpr sc newPkgErrorsDstProcessor Fun Args =
       ((SelectorExpr (Ident (NewIdent ''errors'')) (NewIdent ''Errorf''), Args), True)"
    if a: "Args = BasicLit STRING Value # rest" and u: "Unquote sc Value = Some format"
      and k: "\<not> (rest \<noteq> [] \<and> isName (last rest) ''err'' \<and> (\<exists>pre. format = pre @ ''%v''))"
  proof -
    have l: "rest \<noteq> [] \<Longrightarrow> Args ! (length Args - 1) = last rest"
      by (simp add: a last_conv_nth)
    have "\<not> (2 \<le> length Args \<and> isName (Args ! (length Args - 1)) ''err'' \<and> HasSuffix format ''%v'')"
      using k l by (cases "rest = []") (auto simp: a HasSuffix_iff)
    then show ?thesis
      using n assms u by (auto simp: fixCallExpr_def Let_def c a)
  qed
  have 3: "fixCallExpr sc newPkgErrorsDstProcessor Fun Args = ((Fun, Args), False)"
    if "Args = [] \<or> (\<forall>v. hd Args \<noteq> BasicLit STRING v) \<or> (\<exists>v. hd Args = BasicLit STRING v \<and> Unquote sc v = None)"
    using that n assms
    by (cases Args) (auto simp: fixCallExpr_def Let_def c split: node.splits option.splits)
  from 1 2 3 show ?thesis by blast
qed

theorem fixCallExpr_fmt_Errorf_witness:
  "fixCallExpr strconv_plain newPkgErrorsDstProcessor
      (SelectorExpr (Ident (NewIdent ''fmt'')) (NewIdent ''Errorf''))
      [BasicLit STRING (Quote_plain ''not found %d: %v''), BasicLit (OtherToken ''INT'') ''1'',
       Ident (NewIdent ''err'')] =
     ((SelectorExpr (Ident (NewIdent ''errors'')) (NewIdent ''Wrapf''),
       [Ident (NewIdent ''err''), BasicLit STRING (Quote_plain ''not found %d''),
        BasicLit (OtherToken ''INT'') ''1'']), True)
   \<and> fixCallExpr strconv_plain newPkgErrorsDstProcessor
      (SelectorExpr (Ident (NewIdent ''fmt'')) (NewIdent ''Errorf''))
      [BasicLit STRING (Quote_plain ''not found %d''), BasicLit (OtherToken ''INT'') ''1''] =
     ((SelectorExpr (Ident (NewIdent ''errors'')) (NewIdent ''Errorf''),
       [BasicLit STRING (Quote_plain ''not found %d''), BasicLit (OtherToken ''INT'') ''1'']), True)
   \<and> fixCallExpr strconv_plain newPkgErrorsDstProcessor
      (SelectorExpr (Ident (NewIdent ''fmt'')) (NewIdent ''Errorf'')) [] =
     ((SelectorExpr (Ident (NewIdent ''fmt'')) (NewIdent ''Errorf''), []), False)"
proof -
  have f: "isPkgSelector (SelectorExpr (Ident (NewIdent ''fmt'')) (NewIdent ''Errorf''))
             ''fmt'' ''Errorf''"
    by (simp add: isPkgSelector_def isTopName_def NewIdent_def ident_String_def)
  have u1: "Unquote strconv_plain (Quote_plain ''not found %d: %v'') =
              Some (''not found %d'' @ '': '' @ ''%v'')"
    by (simp add: strconv_plain_def Unquote_plain_def Quote_plain_def)
  have u2: "Unquote strconv_plain (Quote_plain ''not found %d'') = Some ''not found %d''"
    by (simp add: strconv_plain_def Unquote_plain_def Quote_plain_def)
  have q: "Quote strconv_plain = Quote_plain"
    by (simp add: strconv_plain_def)
  show ?thesis
    using
      fixCallExpr_fmt_Errorf [OF f, where sc = strconv_plain
        and Args = "[BasicLit STRING (Quote_plain ''not found %d: %v''),
                     BasicLit (OtherToken ''INT'') ''1'', Ident (NewIdent ''err'')]"
        and Value = "Quote_plain ''not found %d: %v''"
        and middle = "[BasicLit (OtherToken ''INT'') ''1'']" and e = "Ident (NewIdent ''err'')"
        and body = "''not found %d''" and seps = "'': ''"]
      fixCallExpr_fmt_Errorf [OF f, where sc = strconv_plain
        and Args = "[BasicLit STRING (Quote_plain ''not found %d''),
                     BasicLit (OtherToken ''INT'') ''1'']"
        and Value = "Quote_plain ''not found %d''"
        and rest = "[BasicLit (OtherToken ''INT'') ''1'']" and format = "''not found %d''"]
      fixCallExpr_fmt_Errorf [OF f, where sc = strconv_plain and Args = "[]"]
    by (simp add: u1 u2 q isName_def ident_String_NewIdent)
qed

text \<open>
  The claim as stated fails on \<^verbatim>\<open>fmt.Errorf(msg, x)\<close>: the first argument is not a
  literal, and the call keeps its target.
\<close>

theorem fixCallExpr_fmt_Errorf_counterexample:
  "fixCallExpr strconv_plain newPkgErrorsDstProcessor
      (SelectorExpr (Ident (NewIdent ''fmt'')) (NewIdent ''Errorf''))
      [Ident (NewIdent ''msg''), Ident (NewIdent ''x'')] =
     ((SelectorExpr (Ident (NewIdent ''fmt'')) (NewIdent ''Errorf''),
       [Ident (NewIdent ''msg''), Ident (NewIdent ''x'')]), False)"
  by (simp add: fixCallExpr_def isPkgSelector_def isTopName_def NewIdent_def ident_String_def
      newPkgErrorsDstProcessor_def)

section \<open>Properties of the import coordination\<close>

lemma findSpec_None: "findSpec sc ss p = None \<longleftrightarrow> (\<forall>s \<in> set ss. importPath sc s \<noteq> p)"
  by (induction ss) auto

lemma findSpec_Some:
  "findSpec sc ss p = Some j \<Longrightarrow>
     j < length ss \<and> importPath sc (ss ! j) = p \<and> (\<forall>k < j. importPath sc (ss ! k) \<noteq> p)"
proof (induction ss arbitrary: j)
  case Nil
  then show ?case by simp
next
  case (Cons s ss)
  show ?case
  proof (cases "importPath sc s = p")
    case True
    with Cons.prems show ?thesis by simp
  next
    case False
    with Cons.prems obtain j' where j': "findSpec sc ss p = Some j'" "j = Suc j'" by auto
    from Cons.IH [OF j'(1)] False show ?thesis
      by (auto simp: j'(2) nth_Cons split: nat.splits)
  qed
qed

lemma findImportByPath_None:
  "findImportByPath sc f is p = None \<longleftrightarrow>
     (\<forall>i \<in> set is. findSpec sc (decl_Specs (dst_Decls f ! i)) p = None)"
  by (induction "is") (auto split: option.splits)

lemma findImportByPath_Some:
  "findImportByPath sc f is p = Some (i, j) \<Longrightarrow>
     i \<in> set is \<and> findSpec sc (decl_Specs (dst_Decls f ! i)) p = Some j"
  by (induction "is") (auto split: option.splits)

lemma set_getImports:
  "set (getImports f) = {i. i < length (dst_Decls f) \<and> isImportDecl (dst_Decls f ! i)}"
  by (auto simp: getImports_def)

lemma decl_Specs_not_import: "\<not> isImportDecl d \<Longrightarrow> decl_Specs d = []"
  by (cases d) (auto simp: isImportDecl_def decl_Specs_def)

lemma count_import_sum:
  "count_import sc f p =
     sum_list (map (\<lambda>d. length (filter (\<lambda>s. importPath sc s = p) (decl_Specs d))) (dst_Decls f))"
  by (simp add: count_import_def all_import_specs_def filter_concat length_concat comp_def)

lemma count_import_0:
  "count_import sc f p = 0 \<longleftrightarrow>
     (\<forall>d \<in> set (dst_Decls f). \<forall>s \<in> set (decl_Specs d). importPath sc s \<noteq> p)"
  by (auto simp: count_import_def all_import_specs_def filter_empty_conv)

lemma findImportByPath_getImports_None:
  "findImportByPath sc f (getImports f) p = None \<longleftrightarrow> count_import sc f p = 0"
proof
  assume a: "findImportByPath sc f (getImports f) p = None"
  show "count_import sc f p = 0"
    unfolding count_import_0
  proof (intro ballI)
    fix d s assume d: "d \<in> set (dst_Decls f)" and s: "s \<in> set (decl_Specs d)"
    from d obtain i where i: "i < length (dst_Decls f)" "dst_Decls f ! i = d"
      by (auto simp: in_set_conv_nth)
    from s have "isImportDecl d" using decl_Specs_not_import by fastforce
    with i have "i \<in> set (getImports f)" by (simp add: set_getImports)
    with a have "findSpec sc (decl_Specs d) p = None"
      by (auto simp: findImportByPath_None i)
    with s show "importPath sc s \<noteq> p" by (simp add: findSpec_None)
  qed
next
  assume "count_import sc f p = 0"
  then show "findImportByPath sc f (getImports f) p = None"
    by (auto simp: count_import_0 findImportByPath_None findSpec_None set_getImports)
qed

lemma findImportByPath_getImports_Some:
  assumes "findImportByPath sc f (getImports f) p = Some (i, j)"
  shows "i < length (dst_Decls f)" and "isImportDecl (dst_Decls f ! i)"
    and "j < length (decl_Specs (dst_Decls f ! i))"
    and "importPath sc (decl_Specs (dst_Decls f ! i) ! j) = p"
  using findImportByPath_Some [OF assms] findSpec_Some [of sc "decl_Specs (dst_Decls f ! i)" p j]
  by (auto simp: set_getImports)

lemma sum_list_update_zero:
  "\<forall>x \<in> set xs. g x = 0 \<Longrightarrow> i < length xs \<Longrightarrow> sum_list (map g (xs[i := d])) = (g d :: nat)"
  by (induction xs arbitrary: i) (auto split: nat.splits)

lemma count_import_update:
  assumes z: "count_import sc f p = 0" and i: "i < length (dst_Decls f)"
  shows "count_import sc (f\<lparr>dst_Decls := (dst_Decls f)[i := d]\<rparr>) p =
           length (filter (\<lambda>s. importPath sc s = p) (decl_Specs d))"
proof -
  let ?g = "\<lambda>d. length (filter (\<lambda>s. importPath sc s = p) (decl_Specs d))"
  have 0: "\<forall>x \<in> set (dst_Decls f). ?g x = 0"
    using z by (auto simp: count_import_0 filter_empty_conv)
  have "sum_list (map ?g ((dst_Decls f)[i := d])) = ?g d"
    using 0 i by (rule sum_list_update_zero)
  then show ?thesis by (simp add: count_import_sum)
qed

lemma set_Specs_import:
  "isImportDecl d \<Longrightarrow> decl_Specs (set_Specs d ss) = ss"
  by (cases d) (auto simp: isImportDecl_def decl_Specs_def set_Specs_def)

lemma importPath_new:
  "Unquote sc (Quote sc p) = Some p \<Longrightarrow> importPath sc (s\<lparr>imp_Name := n, imp_Path_Value := Quote sc p\<rparr>) = p"
  by (simp add: importPath_def)

lemma filter_update_count:
  "j < length ss \<Longrightarrow> \<not> P (ss ! j) \<Longrightarrow> P s \<Longrightarrow>
     length (filter P (ss[j := s])) = Suc (length (filter P ss))"
proof (induction ss arbitrary: j)
  case Nil
  then show ?case by simp
next
  case (Cons a ss)
  then show ?case by (cases j) auto
qed

lemma EndProcess_count:
  assumes c: "changed p" and pk: "pkgPath p = ''github.com/pkg/errors''"
    and q: "Unquote sc (Quote sc ''github.com/pkg/errors'') = Some ''github.com/pkg/errors''"
  shows "fst (EndProcess sc p f) = True \<and>
         count_import sc (snd (EndProcess sc p f)) ''github.com/pkg/errors'' =
           (if count_import sc f ''github.com/pkg/errors'' = 0 then 1
            else count_import sc f ''github.com/pkg/errors'')"
proof (cases "findImportByPath sc f (getImports f) ''github.com/pkg/errors''")
  case (Some a)
  then have "count_import sc f ''github.com/pkg/errors'' \<noteq> 0"
    using findImportByPath_getImports_None [of sc f "''github.com/pkg/errors''"] by simp
  then show ?thesis using Some c by (simp add: EndProcess_def pk)
next
  case None
  then have z: "count_import sc f ''github.com/pkg/errors'' = 0"
    by (simp add: findImportByPath_getImports_None)
  let ?P = "\<lambda>s. importPath sc s = ''github.com/pkg/errors''"
  show ?thesis
  proof (cases "findImportByPath sc f (getImports f) ''errors''")
    case (Some ij)
    obtain i j where ij: "ij = (i, j)" by (cases ij)
    note S = findImportByPath_getImports_Some [OF Some [unfolded ij]]
    let ?ss = "decl_Specs (dst_Decls f ! i)"
    let ?s = "(?ss ! j)\<lparr>imp_Name := None, imp_Path_Value := Quote sc ''github.com/pkg/errors''\<rparr>"
    have n: "\<not> ?P (?ss ! j)" using S(4) by simp
    have "?ss ! j \<in> set ?ss" using S(3) by simp
    have 0: "filter ?P ?ss = []"
      using z S(1) by (auto simp: count_import_0 filter_empty_conv)
    have "length (filter ?P (?ss[j := ?s])) = 1"
      using filter_update_count [of j ?ss ?P ?s, OF S(3) n] importPath_new [OF q] 0
      by simp
    then have "count_import sc (f\<lparr>dst_Decls := (dst_Decls f)[i := set_Specs (dst_Decls f ! i) (?ss[j := ?s])]\<rparr>)
            ''github.com/pkg/errors'' = 1"
      by (simp add: count_import_update [OF z S(1)] set_Specs_import [OF S(2)])
    then show ?thesis using c None Some z by (simp add: EndProcess_def pk ij)
  next
    case N2: None
    show ?thesis
    proof (cases "getImports f")
      case Nil
      have "count_import sc (f\<lparr>dst_Decls := ImportDecl True [\<lparr>imp_Name = None, imp_Path_Kind = STRING,
               imp_Path_Value = Quote sc ''github.com/pkg/errors''\<rparr>] True # dst_Decls f\<rparr>)
              ''github.com/pkg/errors'' = 1"
        using z q by (simp add: count_import_sum decl_Specs_def importPath_def)
      then show ?thesis using c None N2 z Nil by (simp add: EndProcess_def pk addImport_def)
    next
      case (Cons i rest)
      then have "i \<in> set (getImports f)" by simp
      then have i: "i < length (dst_Decls f)" "isImportDecl (dst_Decls f ! i)"
        by (simp_all add: set_getImports)
      let ?ss = "decl_Specs (dst_Decls f ! i)"
      let ?s = "\<lparr>imp_Name = None, imp_Path_Kind = STRING,
               imp_Path_Value = Quote sc ''github.com/pkg/errors''\<rparr>"
      have 0: "filter ?P ?ss = []"
        using z i(1) by (auto simp: count_import_0 filter_empty_conv)
      have P: "?P ?s" using q by (simp add: importPath_def)
      have "count_import sc (f\<lparr>dst_Decls := (dst_Decls f)[i := set_Specs (dst_Decls f ! i) (?ss @ [?s])]\<rparr>)
              ''github.com/pkg/errors'' = 1"
        by (simp add: count_import_update [OF z i(1)] set_Specs_import [OF i(2)] 0 P)
      then show ?thesis using c None N2 z Cons by (simp add: EndProcess_def pk addImport_def)
    qed
  qed
qed

lemma findImportByPath_Some_first:
  "findImportByPath sc f is p = Some (i, j) \<Longrightarrow>
     \<exists>pre post. is = pre @ i # post
       \<and> (\<forall>k \<in> set pre. findSpec sc (decl_Specs (dst_Decls f ! k)) p = None)"
proof (induction "is")
  case Nil
  then show ?case by simp
next
  case (Cons a "is")
  show ?case
  proof (cases "findSpec sc (decl_Specs (dst_Decls f ! a)) p")
    case None
    with Cons.prems have "findImportByPath sc f is p = Some (i, j)" by simp
    from Cons.IH [OF this] obtain pre post where
      "is = pre @ i # post" "\<forall>k \<in> set pre. findSpec sc (decl_Specs (dst_Decls f ! k)) p = None"
      by blast
    with None have "a # is = (a # pre) @ i # post
        \<and> (\<forall>k \<in> set (a # pre). findSpec sc (decl_Specs (dst_Decls f ! k)) p = None)"
      by simp
    then show ?thesis by blast
  next
    case (Some j')
    with Cons.prems have "a = i" by simp
    then have "a # is = [] @ i # is
        \<and> (\<forall>k \<in> set []. findSpec sc (decl_Specs (dst_Decls f ! k)) p = None)"
      by simp
    then show ?thesis by blast
  qed
qed

lemma findImportByPath_getImports_first:
  assumes a: "findImportByPath sc f (getImports f) p = Some (i, j)" and k: "k < i"
  shows "\<forall>s \<in> set (decl_Specs (dst_Decls f ! k)). importPath sc s \<noteq> p"
proof (cases "isImportDecl (dst_Decls f ! k)")
  case False
  then show ?thesis by (simp add: decl_Specs_not_import)
next
  case True
  from findImportByPath_getImports_Some(1) [OF a] k have kl: "k < length (dst_Decls f)" by simp
  from findImportByPath_Some_first [OF a] obtain pre post where
    pp: "getImports f = pre @ i # post"
    and n: "\<forall>k \<in> set pre. findSpec sc (decl_Specs (dst_Decls f ! k)) p = None"
    by blast
  have "sorted_wrt (<) (getImports f)"
    by (simp add: getImports_def sorted_wrt_filter)
  then have post: "\<forall>x \<in> set post. i < x"
    by (simp add: pp sorted_wrt_append)
  have "k \<in> set (getImports f)" using True kl by (simp add: set_getImports)
  then have "k \<in> set pre" using post k by (auto simp: pp)
  with n show ?thesis by (simp add: findSpec_None)
qed

lemma decl_as_ImportDecl:
  "isImportDecl d \<Longrightarrow> \<exists>l r. d = ImportDecl l (decl_Specs d) r"
  by (cases d) (auto simp: isImportDecl_def decl_Specs_def)

text \<open>
  C4 (as amended). When the rule's flag is set, the path \<^verbatim>\<open>github.com/pkg/errors\<close> is
  not imported and the path \<^verbatim>\<open>errors\<close> is, \<^verbatim>\<open>EndProcess\<close> rewrites the first import
  spec of \<^verbatim>\<open>errors\<close> where it stands: its path becomes the quoted
  \<^verbatim>\<open>github.com/pkg/errors\<close> and its alias is removed; every other spec and every other
  declaration stays as it is.
\<close>

theorem EndProcess_replaces_errors_import:
  assumes z: "count_import sc f ''github.com/pkg/errors'' = 0"
    and e: "count_import sc f ''errors'' \<noteq> 0"
  shows "\<exists>i j Lparen Specs Rparen.
           i < length (dst_Decls f) \<and> dst_Decls f ! i = ImportDecl Lparen Specs Rparen
         \<and> j < length Specs \<and> importPath sc (Specs ! j) = ''errors''
         \<and> (\<forall>k < j. importPath sc (Specs ! k) \<noteq> ''errors'')
         \<and> (\<forall>k < i. \<forall>s \<in> set (decl_Specs (dst_Decls f ! k)). importPath sc s \<noteq> ''errors'')
         \<and> EndProcess sc (newPkgErrorsDstProcessor\<lparr>changed := True\<rparr>) f =
             (True,
              f\<lparr>dst_Decls := (dst_Decls f)[i :=
                   ImportDecl Lparen
                     (Specs[j := (Specs ! j)\<lparr>imp_Name := None,
                        imp_Path_Value := Quote sc ''github.com/pkg/errors''\<rparr>])
                     Rparen]\<rparr>)"
proof -
  have None: "findImportByPath sc f (getImports f) ''github.com/pkg/errors'' = None"
    using z by (simp add: findImportByPath_getImports_None)
  from e obtain i j where Some: "findImportByPath sc f (getImports f) ''errors'' = Some (i, j)"
    using findImportByPath_getImports_None [of sc f "''errors''"] by (cases "findImportByPath sc f (getImports f) ''errors''") auto
  note S = findImportByPath_getImports_Some [OF Some]
  from decl_as_ImportDecl [OF S(2)] obtain l r where
    d: "dst_Decls f ! i = ImportDecl l (decl_Specs (dst_Decls f ! i)) r" by blast
  let ?ss = "decl_Specs (dst_Decls f ! i)"
  have first_j: "\<forall>k < j. importPath sc (?ss ! k) \<noteq> ''errors''"
    using findSpec_Some [of sc ?ss "''errors''" j] findImportByPath_Some [OF Some] by simp
  have first_i: "\<forall>k < i. \<forall>s \<in> set (decl_Specs (dst_Decls f ! k)). importPath sc s \<noteq> ''errors''"
    using findImportByPath_getImports_first [OF Some] by blast
  have s: "set_Specs (dst_Decls f ! i) ss = ImportDecl l ss r" for ss
    by (subst d) (simp add: set_Specs_def)
  have "EndProcess sc (newPkgErrorsDstProcessor\<lparr>changed := True\<rparr>) f =
             (True,
              f\<lparr>dst_Decls := (dst_Decls f)[i :=
                   ImportDecl l
                     (?ss[j := (?ss ! j)\<lparr>imp_Name := None,
                        imp_Path_Value := Quote sc ''github.com/pkg/errors''\<rparr>])
                     r]\<rparr>)"
    using None Some by (simp add: EndProcess_def newPkgErrorsDstProcessor_def s)
  with S(1) d S(3) S(4) first_j first_i show ?thesis by blast
qed

lemma Unquote_Quote_plain:
  "Unquote strconv_plain (Quote strconv_plain ''github.com/pkg/errors'') =
     Some ''github.com/pkg/errors''"
  by (simp add: strconv_plain_def Unquote_plain_def Quote_plain_def)

lemmas eval_imports =
  count_import_def all_import_specs_def decl_Specs_def importPath_def strconv_plain_def
  Unquote_plain_def Quote_plain_def

theorem EndProcess_replaces_errors_import_witness:
  "count_import strconv_plain
      \<lparr>dst_Name = NewIdent ''foo'',
       dst_Decls = [ImportDecl True
         [\<lparr>imp_Name = None, imp_Path_Kind = STRING, imp_Path_Value = Quote_plain ''bar''\<rparr>,
          \<lparr>imp_Name = None, imp_Path_Kind = STRING, imp_Path_Value = Quote_plain ''errors''\<rparr>]
         True]\<rparr> ''github.com/pkg/errors'' = 0
   \<and> count_import strconv_plain
      \<lparr>dst_Name = NewIdent ''foo'',
       dst_Decls = [ImportDecl True
         [\<lparr>imp_Name = None, imp_Path_Kind = STRING, imp_Path_Value = Quote_plain ''bar''\<rparr>,
          \<lparr>imp_Name = None, imp_Path_Kind = STRING, imp_Path_Value = Quote_plain ''errors''\<rparr>]
         True]\<rparr> ''errors'' \<noteq> 0
   \<and> EndProcess strconv_plain (newPkgErrorsDstProcessor\<lparr>changed := True\<rparr>)
      \<lparr>dst_Name = NewIdent ''foo'',
       dst_Decls = [ImportDecl True
         [\<lparr>imp_Name = None, imp_Path_Kind = STRING, imp_Path_Value = Quote_plain ''bar''\<rparr>,
          \<lparr>imp_Name = None, imp_Path_Kind = STRING, imp_Path_Value = Quote_plain ''errors''\<rparr>]
         True]\<rparr> =
     (True,
      \<lparr>dst_Name = NewIdent ''foo'',
       dst_Decls = [ImportDecl True
         [\<lparr>imp_Name = None, imp_Path_Kind = STRING, imp_Path_Value = Quote_plain ''bar''\<rparr>,
          \<lparr>imp_Name = None, imp_Path_Kind = STRING,
             imp_Path_Value = Quote_plain ''github.com/pkg/errors''\<rparr>]
         True]\<rparr>)"
proof -
  let ?f = "\<lparr>dst_Name = NewIdent ''foo'',
       dst_Decls = [ImportDecl True
         [\<lparr>imp_Name = None, imp_Path_Kind = STRING, imp_Path_Value = Quote_plain ''bar''\<rparr>,
          \<lparr>imp_Name = None, imp_Path_Kind = STRING, imp_Path_Value = Quote_plain ''errors''\<rparr>]
         True]\<rparr>"
  have z: "count_import strconv_plain ?f ''github.com/pkg/errors'' = 0"
    by (simp add: eval_imports)
  have e: "count_import strconv_plain ?f ''errors'' \<noteq> 0"
    by (simp add: eval_imports)
  from EndProcess_replaces_errors_import [OF z e] obtain i j Lparen Specs Rparen where
    r: "i < length (dst_Decls ?f)" "dst_Decls ?f ! i = ImportDecl Lparen Specs Rparen"
       "j < length Specs" "importPath strconv_plain (Specs ! j) = ''errors''"
       "EndProcess strconv_plain (newPkgErrorsDstProcessor\<lparr>changed := True\<rparr>) ?f =
             (True,
              ?f\<lparr>dst_Decls := (dst_Decls ?f)[i :=
                   ImportDecl Lparen
                     (Specs[j := (Specs ! j)\<lparr>imp_Name := None,
                        imp_Path_Value := Quote strconv_plain ''github.com/pkg/errors''\<rparr>])
                     Rparen]\<rparr>)"
    by blast
  from r(1) have i: "i = 0" by simp
  from r(2) i have s: "Specs = [\<lparr>imp_Name = None, imp_Path_Kind = STRING, imp_Path_Value = Quote_plain ''bar''\<rparr>,
          \<lparr>imp_Name = None, imp_Path_Kind = STRING, imp_Path_Value = Quote_plain ''errors''\<rparr>]"
    "Lparen = True" "Rparen = True" by simp_all
  from r(3) r(4) have j: "j = 1"
    by (cases j) (auto simp: s importPath_def strconv_plain_def Unquote_plain_def Quote_plain_def)
  from r(5) have "EndProcess strconv_plain (newPkgErrorsDstProcessor\<lparr>changed := True\<rparr>) ?f =
     (True,
      \<lparr>dst_Name = NewIdent ''foo'',
       dst_Decls = [ImportDecl True
         [\<lparr>imp_Name = None, imp_Path_Kind = STRING, imp_Path_Value = Quote_plain ''bar''\<rparr>,
          \<lparr>imp_Name = None, imp_Path_Kind = STRING,
             imp_Path_Value = Quote_plain ''github.com/pkg/errors''\<rparr>]
         True]\<rparr>)"
    by (simp add: i j s strconv_plain_def)
  with z e show ?thesis by blast
qed

text \<open>
  The claim as stated fails on \<^verbatim>\<open>import stderrors "errors"\<close>: the alias is not
  preserved.
\<close>

theorem EndProcess_replaces_errors_import_counterexample:
  "EndProcess strconv_plain (newPkgErrorsDstProcessor\<lparr>changed := True\<rparr>)
      \<lparr>dst_Name = NewIdent ''foo'',
       dst_Decls = [ImportDecl False
         [\<lparr>imp_Name = Some (NewIdent ''stderrors''), imp_Path_Kind = STRING,
             imp_Path_Value = Quote_plain ''errors''\<rparr>]
         False]\<rparr> =
     (True,
      \<lparr>dst_Name = NewIdent ''foo'',
       dst_Decls = [ImportDecl False
         [\<lparr>imp_Name = None, imp_Path_Kind = STRING,
             imp_Path_Value = Quote_plain ''github.com/pkg/errors''\<rparr>]
         False]\<rparr>)"
  by (simp add: EndProcess_def getImports_def isImportDecl_def set_Specs_def
      newPkgErrorsDstProcessor_def eval_imports)

text \<open>
  C5 (as amended). When the rule's flag is set, \<^verbatim>\<open>EndProcess\<close> reports a change, and
  afterwards \<^verbatim>\<open>github.com/pkg/errors\<close> is imported exactly once if it was not imported
  before, and as many times as before otherwise: a file that already imports it is
  left as it is; failing that and an import of \<^verbatim>\<open>errors\<close> (the case of C4), the
  new spec is appended to the first import declaration, or, when there is none, a new
  import declaration is put in front of the declarations.
\<close>

theorem EndProcess_imports_pkg_errors:
  assumes q: "Unquote sc (Quote sc ''github.com/pkg/errors'') = Some ''github.com/pkg/errors''"
  shows "fst (EndProcess sc (newPkgErrorsDstProcessor\<lparr>changed := True\<rparr>) f) = True
     \<and> count_import sc (snd (EndProcess sc (newPkgErrorsDstProcessor\<lparr>changed := True\<rparr>) f))
          ''github.com/pkg/errors'' =
           (if count_import sc f ''github.com/pkg/errors'' = 0 then 1
            else count_import sc f ''github.com/pkg/errors'')
     \<and> (count_import sc f ''github.com/pkg/errors'' \<noteq> 0 \<longrightarrow>
          snd (EndProcess sc (newPkgErrorsDstProcessor\<lparr>changed := True\<rparr>) f) = f)
     \<and> (count_import sc f ''github.com/pkg/errors'' = 0 \<and> count_import sc f ''errors'' = 0 \<longrightarrow>
          snd (EndProcess sc (newPkgErrorsDstProcessor\<lparr>changed := True\<rparr>) f) =
            (case getImports f of
               [] \<Rightarrow>
                 f\<lparr>dst_Decls :=
                     ImportDecl True
                       [\<lparr>imp_Name = None, imp_Path_Kind = STRING,
                          imp_Path_Value = Quote sc ''github.com/pkg/errors''\<rparr>] True
                     # dst_Decls f\<rparr>
             | i # imports \<Rightarrow>
                 f\<lparr>dst_Decls := (dst_Decls f)[i :=
                     set_Specs (dst_Decls f ! i)
                       (decl_Specs (dst_Decls f ! i) @
                          [\<lparr>imp_Name = None, imp_Path_Kind = STRING,
                             imp_Path_Value = Quote sc ''github.com/pkg/errors''\<rparr>])]\<rparr>))"
proof -
  let ?p = "newPkgErrorsDstProcessor\<lparr>changed := True\<rparr>"
  have c: "changed ?p" by simp
  have pk: "pkgPath ?p = ''github.com/pkg/errors''" by (simp add: newPkgErrorsDstProcessor_def)
  note 1 = EndProcess_count [OF c pk q, of f]
  have 2: "snd (EndProcess sc ?p f) = f" if "count_import sc f ''github.com/pkg/errors'' \<noteq> 0"
    using that findImportByPath_getImports_None [of sc f "''github.com/pkg/errors''"]
    by (auto simp: EndProcess_def pk)
  have 3: "snd (EndProcess sc ?p f) =
            (case getImports f of
               [] \<Rightarrow>
                 f\<lparr>dst_Decls :=
                     ImportDecl True
                       [\<lparr>imp_Name = None, imp_Path_Kind = STRING,
                          imp_Path_Value = Quote sc ''github.com/pkg/errors''\<rparr>] True
                     # dst_Decls f\<rparr>
             | i # imports \<Rightarrow>
                 f\<lparr>dst_Decls := (dst_Decls f)[i :=
                     set_Specs (dst_Decls f ! i)
                       (decl_Specs (dst_Decls f ! i) @
                          [\<lparr>imp_Name = None, imp_Path_Kind = STRING,
                             imp_Path_Value = Quote sc ''github.com/pkg/errors''\<rparr>])]\<rparr>)"
    if "count_import sc f ''github.com/pkg/errors'' = 0" "count_import sc f ''errors'' = 0"
  proof -
    have N1: "findImportByPath sc f (getImports f) ''github.com/pkg/errors'' = None"
      and N2: "findImportByPath sc f (getImports f) ''errors'' = None"
      using that by (simp_all add: findImportByPath_getImports_None)
    have "snd (EndProcess sc ?p f) = addImport sc f ''github.com/pkg/errors'' [] (getImports f)"
      by (simp add: EndProcess_def pk N1 N2)
    then show ?thesis
      by (cases "getImports f") (simp_all add: addImport_def)
  qed
  from 1 2 3 show ?thesis by blast
qed

theorem EndProcess_imports_pkg_errors_witness:
  "Unquote strconv_plain (Quote strconv_plain ''github.com/pkg/errors'') =
     Some ''github.com/pkg/errors''
   \<and> EndProcess strconv_plain (newPkgErrorsDstProcessor\<lparr>changed := True\<rparr>)
          \<lparr>dst_Name = NewIdent ''main'',
           dst_Decls =
             [ImportDecl False
                [\<lparr>imp_Name = None, imp_Path_Kind = STRING, imp_Path_Value = Quote_plain ''bar''\<rparr>]
                False,
              ImportDecl False
                [\<lparr>imp_Name = None, imp_Path_Kind = STRING, imp_Path_Value = Quote_plain ''foo''\<rparr>]
                False,
              OtherDecl (OtherNode ''FuncDecl'' [])]\<rparr> =
       (True,
        \<lparr>dst_Name = NewIdent ''main'',
         dst_Decls =
          [ImportDecl False
             [\<lparr>imp_Name = None, imp_Path_Kind = STRING, imp_Path_Value = Quote_plain ''bar''\<rparr>,
              \<lparr>imp_Name = None, imp_Path_Kind = STRING,
                 imp_Path_Value = Quote_plain ''github.com/pkg/errors''\<rparr>]
             False,
           ImportDecl False
             [\<lparr>imp_Name = None, imp_Path_Kind = STRING, imp_Path_Value = Quote_plain ''foo''\<rparr>]
             False,
           OtherDecl (OtherNode ''FuncDecl'' [])]\<rparr>)
   \<and> EndProcess strconv_plain (newPkgErrorsDstProcessor\<lparr>changed := True\<rparr>)
          \<lparr>dst_Name = NewIdent ''main'', dst_Decls = [OtherDecl (OtherNode ''FuncDecl'' [])]\<rparr> =
       (True,
        \<lparr>dst_Name = NewIdent ''main'',
         dst_Decls =
          [ImportDecl True
             [\<lparr>imp_Name = None, imp_Path_Kind = STRING,
                 imp_Path_Value = Quote_plain ''github.com/pkg/errors''\<rparr>]
             True,
           OtherDecl (OtherNode ''FuncDecl'' [])]\<rparr>)
   \<and> EndProcess strconv_plain (newPkgErrorsDstProcessor\<lparr>changed := True\<rparr>)
          \<lparr>dst_Name = NewIdent ''main'',
           dst_Decls =
             [ImportDecl True
                [\<lparr>imp_Name = None, imp_Path_Kind = STRING,
                    imp_Path_Value = Quote_plain ''github.com/pkg/errors''\<rparr>]
                True]\<rparr> =
       (True,
        \<lparr>dst_Name = NewIdent ''main'',
         dst_Decls =
           [ImportDecl True
              [\<lparr>imp_Name = None, imp_Path_Kind = STRING,
                  imp_Path_Value = Quote_plain ''github.com/pkg/errors''\<rparr>]
              True]\<rparr>)"
proof -
  let ?p = "newPkgErrorsDstProcessor\<lparr>changed := True\<rparr>"
  let ?f1 = "\<lparr>dst_Name = NewIdent ''main'',
           dst_Decls =
             [ImportDecl False
                [\<lparr>imp_Name = None, imp_Path_Kind = STRING, imp_Path_Value = Quote_plain ''bar''\<rparr>]
                False,
              ImportDecl False
                [\<lparr>imp_Name = None, imp_Path_Kind = STRING, imp_Path_Value = Quote_plain ''foo''\<rparr>]
                False,
              OtherDecl (OtherNode ''FuncDecl'' [])]\<rparr>"
  let ?f2 = "\<lparr>dst_Name = NewIdent ''main'', dst_Decls = [OtherDecl (OtherNode ''FuncDecl'' [])]\<rparr>"
  let ?f3 = "\<lparr>dst_Name = NewIdent ''main'',
           dst_Decls =
             [ImportDecl True
                [\<lparr>imp_Name = None, imp_Path_Kind = STRING,
                    imp_Path_Value = Quote_plain ''github.com/pkg/errors''\<rparr>]
                True]\<rparr>"
  have e: "x = (fst x, snd x)" for x :: "bool \<times> dst_File" by simp
  have 1: "EndProcess strconv_plain ?p ?f1 = (True,
        \<lparr>dst_Name = NewIdent ''main'',
         dst_Decls =
          [ImportDecl False
             [\<lparr>imp_Name = None, imp_Path_Kind = STRING, imp_Path_Value = Quote_plain ''bar''\<rparr>,
              \<lparr>imp_Name = None, imp_Path_Kind = STRING,
                 imp_Path_Value = Quote_plain ''github.com/pkg/errors''\<rparr>]
             False,
           ImportDecl False
             [\<lparr>imp_Name = None, imp_Path_Kind = STRING, imp_Path_Value = Quote_plain ''foo''\<rparr>]
             False,
           OtherDecl (OtherNode ''FuncDecl'' [])]\<rparr>)"
    using EndProcess_imports_pkg_errors [OF Unquote_Quote_plain, of ?f1]
    by (subst e) (simp add: eval_imports getImports_def isImportDecl_def set_Specs_def upt_rec)
  have 2: "EndProcess strconv_plain ?p ?f2 = (True,
        \<lparr>dst_Name = NewIdent ''main'',
         dst_Decls =
          [ImportDecl True
             [\<lparr>imp_Name = None, imp_Path_Kind = STRING,
                 imp_Path_Value = Quote_plain ''github.com/pkg/errors''\<rparr>]
             True,
           OtherDecl (OtherNode ''FuncDecl'' [])]\<rparr>)"
    using EndProcess_imports_pkg_errors [OF Unquote_Quote_plain, of ?f2]
    by (subst e) (simp add: eval_imports getImports_def isImportDecl_def set_Specs_def upt_rec)
  have 3: "EndProcess strconv_plain ?p ?f3 = (True, ?f3)"
    using EndProcess_imports_pkg_errors [OF Unquote_Quote_plain, of ?f3]
    by (subst e) (simp add: eval_imports getImports_def isImportDecl_def set_Specs_def upt_rec)
  from 1 2 3 Unquote_Quote_plain show ?thesis by blast
qed

text \<open>
  The claim as stated fails on a file that imports the path twice (once under an
  alias): the file is left as it is, with two imports of the path.
\<close>

theorem EndProcess_imports_pkg_errors_counterexample:
  "count_import strconv_plain
     (snd (EndProcess strconv_plain (newPkgErrorsDstProcessor\<lparr>changed := True\<rparr>)
        \<lparr>dst_Name = NewIdent ''main'',
         dst_Decls =
           [ImportDecl True
              [\<lparr>imp_Name = None, imp_Path_Kind = STRING,
                  imp_Path_Value = Quote_plain ''github.com/pkg/errors''\<rparr>,
               \<lparr>imp_Name = Some (NewIdent ''pkgerrors''), imp_Path_Kind = STRING,
                  imp_Path_Value = Quote_plain ''github.com/pkg/errors''\<rparr>]
              True]\<rparr>))
     ''github.com/pkg/errors'' = 2"
  by (simp add: EndProcess_def getImports_def isImportDecl_def set_Specs_def
      newPkgErrorsDstProcessor_def eval_imports)

section \<open>Properties of the processor\<close>

lemma changed_self [simp]: "p\<lparr>changed := changed p\<rparr> = p"
  by simp

lemma fixReturnStmt_consts [simp]:
  "fixReturnStmt (p\<lparr>changed := c\<rparr>) rs = fixReturnStmt p rs"
  by (simp add: fixReturnStmt_def withStackExpr_def)

lemma compareErr_consts [simp]:
  "compareErr (p\<lparr>changed := c\<rparr>) X Op Y b = compareErr p X Op Y b"
  by (simp add: compareErr_def)

lemma causeExpr_consts [simp]: "causeExpr (p\<lparr>changed := c\<rparr>) = causeExpr p"
  by (simp add: causeExpr_def)

lemma fixIfStmt_consts [simp]: "fixIfStmt (p\<lparr>changed := c\<rparr>) n = fixIfStmt p n"
  by (auto simp: fixIfStmt_def split: node.splits)

lemma fixTypeAssertExpr_consts [simp]:
  "fixTypeAssertExpr (p\<lparr>changed := c\<rparr>) n = fixTypeAssertExpr p n"
  by (simp add: fixTypeAssertExpr_def)

lemma fixCallExpr_consts [simp]:
  "fixCallExpr sc (p\<lparr>changed := c\<rparr>) f args = fixCallExpr sc p f args"
  by (auto simp: fixCallExpr_def split: node.splits option.splits)

lemma fixReturnStmt_False: "fixReturnStmt p rs = (rs', False) \<Longrightarrow> rs' = rs"
  by (auto simp: fixReturnStmt_def split: if_splits)

lemma fixIfStmt_False: "fixIfStmt p c = (c', False) \<Longrightarrow> c' = c"
  by (auto simp: fixIfStmt_def split: if_splits node.splits)

lemma fixTypeAssertExpr_False: "fixTypeAssertExpr p x = (x', False) \<Longrightarrow> x' = x"
  by (auto simp: fixTypeAssertExpr_def split: if_splits)

lemma fixCallExpr_False: "fixCallExpr sc p f args = ((f', args'), False) \<Longrightarrow> f' = f \<and> args' = args"
  by (auto simp: fixCallExpr_def Let_def split: if_splits node.splits option.splits)

lemma Process_no_match:
  "\<not> node_match sc p n \<Longrightarrow> pkgErrors_Process sc p n = (p, n)"
  by (cases n)
    (auto simp: node_match_def pkgErrors_Process_def split: prod.splits
      dest: fixReturnStmt_False fixIfStmt_False fixTypeAssertExpr_False fixCallExpr_False)

lemma Inspect_list_id:
  "(\<And>a. a \<in> set ns \<Longrightarrow> Inspect sc p a = (p, a)) \<Longrightarrow> Inspect_list sc p ns = (p, ns)"
  by (induction ns) auto

lemma Inspect_opt_id:
  "(\<And>a. a \<in> set_option t \<Longrightarrow> Inspect sc p a = (p, a)) \<Longrightarrow> Inspect_opt sc p t = (p, t)"
  by (cases t) auto

lemma Inspect_no_match:
  "\<not> tree_match sc p n \<Longrightarrow> Inspect sc p n = (p, n)"
proof (induction n)
  case (Ident x)
  then show ?case
    by (subst Inspect.simps) (simp add: Process_no_match)
next
  case (BasicLit x1 x2)
  then show ?case
    by (subst Inspect.simps) (simp add: Process_no_match)
next
  case (BinaryExpr n1 x2 n2)
  then show ?case
    by (subst Inspect.simps) (simp add: Process_no_match)
next
  case (CallExpr n x2 x3)
  then have "Inspect_list sc p x2 = (p, x2)"
    by (intro Inspect_list_id) (simp add: list_ex_iff)
  with CallExpr show ?case
    by (subst Inspect.simps) (simp add: Process_no_match)
next
  case (SelectorExpr n x2)
  then show ?case
    by (subst Inspect.simps) (simp add: Process_no_match)
next
  case (TypeAssertExpr n x2)
  then have "Inspect_opt sc p x2 = (p, x2)"
    by (intro Inspect_opt_id) (auto split: option.splits)
  with TypeAssertExpr show ?case
    by (subst Inspect.simps) (simp add: Process_no_match)
next
  case (ReturnStmt x)
  then have "Inspect_list sc p x = (p, x)"
    by (intro Inspect_list_id) (simp add: list_ex_iff)
  with ReturnStmt show ?case
    by (subst Inspect.simps) (simp add: Process_no_match)
next
  case (IfStmt x1 n1 n2 x4)
  then have "Inspect_opt sc p x1 = (p, x1)" "Inspect_opt sc p x4 = (p, x4)"
    by (intro Inspect_opt_id; auto split: option.splits)+
  with IfStmt show ?case
    by (subst Inspect.simps) (simp add: Process_no_match)
next
  case (OtherNode x1 x2)
  then have "Inspect_list sc p x2 = (p, x2)"
    by (intro Inspect_list_id) (simp add: list_ex_iff)
  with OtherNode show ?case
    by (subst Inspect.simps) (simp add: Process_no_match)
qed

lemma Inspect_decls_no_match:
  "\<not> list_ex (\<lambda>d. case d of ImportDecl Lparen Specs Rparen \<Rightarrow> False
                  | OtherDecl n \<Rightarrow> tree_match sc p n) ds \<Longrightarrow> Inspect_decls sc p ds = (p, ds)"
  by (induction ds) (auto simp: Inspect_no_match split: decl.splits)

lemma Inspect_file_no_match:
  "\<not> file_match sc p df \<Longrightarrow> Inspect_file sc p df = (p, df)"
  by (simp add: Inspect_file_def file_match_def Inspect_decls_no_match)

text \<open>
  C6. When the file parses and no rule reports a change, which is the case when no node
  matches a shape, \<^verbatim>\<open>Process\<close> returns a file with the name and the content of the
  input and no error, whatever \<open>Fprint\<close> is: the tree is not rendered. The result is
  the rendering of the tree only when a rule reports a change.
\<close>

theorem Process_no_change_returns_input:
  assumes "ParseFile (Name f) (Content f) = Inr df"
  shows
    "(\<not> fst (dps_loop sc newDstProcessors df False)
        \<or> \<not> file_match sc newPkgErrorsDstProcessor df \<longrightarrow>
      (\<forall>Fprint. processor_Process sc ParseFile Fprint f =
         Inr \<lparr>Name = Name f, Content = Content f, Error = None\<rparr>))
     \<and> (fst (dps_loop sc newDstProcessors df False) \<longrightarrow>
      processor_Process sc ParseFile Fprint f =
        (case Fprint (snd (dps_loop sc newDstProcessors df False)) of
           Inl err \<Rightarrow> Inl (''error while generating source code based on ast, '' @ err)
         | Inr buf \<Rightarrow> Inr \<lparr>Name = Name f, Content = buf, Error = None\<rparr>))"
proof -
  have "\<not> fst (dps_loop sc newDstProcessors df False)"
    if "\<not> file_match sc newPkgErrorsDstProcessor df"
    using that
    by (simp add: newDstProcessors_def Inspect_file_no_match EndProcess_def
        newPkgErrorsDstProcessor_def)
  then show ?thesis
    using assms by (auto simp: processor_Process_def split: prod.splits)
qed

theorem Process_no_change_returns_input_witness:
  "processor_Process strconv_plain
     (\<lambda>name content.
        Inr \<lparr>dst_Name = NewIdent ''foo'',
             dst_Decls = [OtherDecl (OtherNode ''FuncDecl''
               [Ident (NewIdent ''foo''), OtherNode ''FuncType'' [], OtherNode ''BlockStmt''
                  [ReturnStmt [Ident (NewIdent ''nil'')]]])]\<rparr>)
     (\<lambda>df. Inl ''never called'')
     \<lparr>Name = ''foo.go'', Content = ''package foo ...'', Error = None\<rparr> =
   Inr \<lparr>Name = ''foo.go'', Content = ''package foo ...'', Error = None\<rparr>
   \<and> processor_Process strconv_plain demo_ParseFile demo_Fprint
       \<lparr>Name = ''a.go'', Content = ''input'', Error = None\<rparr> =
     Inr \<lparr>Name = ''a.go'', Content = ''output'', Error = None\<rparr>"
proof -
  let ?df = "\<lparr>dst_Name = NewIdent ''foo'',
             dst_Decls = [OtherDecl (OtherNode ''FuncDecl''
               [Ident (NewIdent ''foo''), OtherNode ''FuncType'' [], OtherNode ''BlockStmt''
                  [ReturnStmt [Ident (NewIdent ''nil'')]]])]\<rparr>"
  let ?f = "\<lparr>Name = ''foo.go'', Content = ''package foo ...'', Error = None\<rparr>"
  let ?g = "\<lparr>Name = ''a.go'', Content = ''input'', Error = None\<rparr>"
  have p: "(\<lambda>name content. Inr ?df) (Name ?f) (Content ?f) = Inr ?df" by simp
  have m: "\<not> file_match strconv_plain newPkgErrorsDstProcessor ?df"
    by (simp add: file_match_def node_match_def pkgErrors_Process_def fixReturnStmt_def
        isName_def NewIdent_def ident_String_def newPkgErrorsDstProcessor_def)
  from Process_no_change_returns_input [OF p, of strconv_plain] m
  have a: "processor_Process strconv_plain (\<lambda>name content. Inr ?df) (\<lambda>df. Inl ''never called'') ?f
             = Inr ?f"
    by simp
  have p': "demo_ParseFile (Name ?g) (Content ?g) = Inr demo_tree"
    by (simp add: demo_ParseFile_def)
  have c: "fst (dps_loop strconv_plain newDstProcessors demo_tree False)"
    by code_simp
  from Process_no_change_returns_input [where ParseFile = demo_ParseFile and f = ?g
      and df = demo_tree and sc = strconv_plain and Fprint = demo_Fprint, OF p'] c
  have b: "processor_Process strconv_plain demo_ParseFile demo_Fprint ?g =
     Inr \<lparr>Name = ''a.go'', Content = ''output'', Error = None\<rparr>"
    by (simp add: demo_Fprint_def)
  from a b show ?thesis by blast
qed

section \<open>Properties of the reader\<close>

lemma Read_loop_append:
  "Read_loop fs pre = None \<Longrightarrow> Read_loop fs (pre @ inputs) = Read_loop fs inputs"
  by (induction pre) (auto split: input.splits sum.splits)

lemma read_loop_stat_failure:
  "PathString s \<in> set inputs \<Longrightarrow> Stat fs s = Inl err \<Longrightarrow>
     \<lparr>Name = s, Content = [], Error = Some err\<rparr> \<in> set (read_loop fs i inputs)"
  by (induction inputs arbitrary: i) (auto simp: formatName_def split: input.splits)

lemma read_loop_open_failure:
  "PathString s \<in> set inputs \<Longrightarrow> Stat fs s = Inr False \<Longrightarrow> HasSuffix s ''.go'' \<Longrightarrow>
   ReadFile fs s = (content, err) \<Longrightarrow>
     \<lparr>Name = s, Content = content, Error = err\<rparr> \<in> set (read_loop fs i inputs)"
  by (induction inputs arbitrary: i) (auto simp: readPath_def formatName_def split: input.splits)

text \<open>
  C8 (as amended). A path that cannot be statted when \<^verbatim>\<open>Read\<close> is called makes
  \<^verbatim>\<open>Read\<close> itself return an error: no stream is produced. When every input passes
  that validation, \<^verbatim>\<open>Read\<close> returns the stream, and on it a path that can no longer
  be statted yields a file with the path as its name, no content and the error, and a
  \<^verbatim>\<open>.go\<close> file that cannot be read yields a file carrying the error.
\<close>

theorem Read_stat_failure:
  "(Read_loop fs pre = None \<and> Stat fs s = Inl err \<longrightarrow>
      Read fs fs' (pre @ PathString s # post) =
        Inl (''the input source is not a valid file or directory, '' @ err))
   \<and> (inputs \<noteq> [] \<and> Read_loop fs inputs = None \<longrightarrow>
        Read fs fs' inputs = Inr (read fs' inputs)
      \<and> (\<forall>s err. PathString s \<in> set inputs \<and> Stat fs' s = Inl err \<longrightarrow>
            \<lparr>Name = s, Content = [], Error = Some err\<rparr> \<in> set (read fs' inputs))
      \<and> (\<forall>s content err. PathString s \<in> set inputs \<and> Stat fs' s = Inr False
              \<and> HasSuffix s ''.go'' \<and> ReadFile fs' s = (content, Some err) \<longrightarrow>
            \<lparr>Name = s, Content = content, Error = Some err\<rparr> \<in> set (read fs' inputs)))"
  by (auto simp: Read_def Read_loop_append read_def read_loop_stat_failure
      read_loop_open_failure)

theorem Read_stat_failure_witness:
  "Read fs_missing fs_missing [PathString ''a.go''] =
     Inl ''the input source is not a valid file or directory, no such file or directory''
   \<and> Read fs_present fs_missing [PathString ''a.go''] =
     Inr [\<lparr>Name = ''a.go'', Content = [], Error = Some ''no such file or directory''\<rparr>]
   \<and> \<lparr>Name = ''a.go'', Content = [], Error = Some ''permission denied''\<rparr>
       \<in> set (read fs_unreadable [PathString ''a.go''])"
proof -
  have 1: "Read_loop fs_missing [] = None \<and> Stat fs_missing ''a.go'' = Inl ''no such file or directory''"
    by (simp add: fs_missing_def)
  have 2: "[PathString ''a.go''] \<noteq> [] \<and> Read_loop fs_present [PathString ''a.go''] = None"
    by (simp add: fs_present_def)
  have 3: "read fs_missing [PathString ''a.go''] =
             [\<lparr>Name = ''a.go'', Content = [], Error = Some ''no such file or directory''\<rparr>]"
    by (simp add: read_def fs_missing_def)
  have 4: "PathString ''a.go'' \<in> set [PathString ''a.go''] \<and> Stat fs_unreadable ''a.go'' = Inr False
      \<and> HasSuffix ''a.go'' ''.go'' \<and> ReadFile fs_unreadable ''a.go'' = ([], Some ''permission denied'')"
    by (simp add: fs_unreadable_def HasSuffix_def)
  from Read_stat_failure [where fs = fs_missing and pre = "[]" and s = "''a.go''"
        and err = "''no such file or directory''" and fs' = fs_missing and post = "[]"] 1
  have a: "Read fs_missing fs_missing [PathString ''a.go''] =
     Inl ''the input source is not a valid file or directory, no such file or directory''"
    by simp
  from Read_stat_failure [where fs = fs_present and fs' = fs_missing
        and inputs = "[PathString ''a.go'']"] 2 3
  have b: "Read fs_present fs_missing [PathString ''a.go''] =
     Inr [\<lparr>Name = ''a.go'', Content = [], Error = Some ''no such file or directory''\<rparr>]"
    by simp
  from Read_stat_failure [where fs = fs_present and fs' = fs_unreadable
        and inputs = "[PathString ''a.go'']"] 2 4
  have c: "\<lparr>Name = ''a.go'', Content = [], Error = Some ''permission denied''\<rparr>
       \<in> set (read fs_unreadable [PathString ''a.go''])"
    by blast
  from a b c show ?thesis by blast
qed

text \<open>
  The claim as stated fails on a path that does not exist: \<^verbatim>\<open>Read\<close> returns the
  error and no stream.
\<close>

theorem Read_stat_failure_counterexample:
  "Read fs_missing fs_missing [PathString ''missing.go''] =
     Inl ''the input source is not a valid file or directory, no such file or directory''"
  by (simp add: Read_def fs_missing_def)

section \<open>Running the rules twice\<close>

lemma std_new: "std newPkgErrorsDstProcessor"
  by (simp add: std_def newPkgErrorsDstProcessor_def)

lemma std_update [simp]: "std (p\<lparr>changed := c\<rparr>) = std p"
  by (simp add: std_def)

lemma std_as_update: "std p \<Longrightarrow> p = newPkgErrorsDstProcessor\<lparr>changed := changed p\<rparr>"
proof -
  assume "std p"
  then have "(p\<lparr>changed := False\<rparr>)\<lparr>changed := changed p\<rparr> =
      newPkgErrorsDstProcessor\<lparr>changed := changed p\<rparr>"
    by (simp only: std_def)
  then show ?thesis by simp
qed

lemma Process_consts:
  "pkgErrors_Process sc (p\<lparr>changed := c\<rparr>) n =
     ((fst (pkgErrors_Process sc p n))\<lparr>changed := c \<or> node_match sc p n\<rparr>,
      snd (pkgErrors_Process sc p n))"
  by (cases n) (auto simp: pkgErrors_Process_def node_match_def split: prod.splits)

lemma Process_fst:
  "fst (pkgErrors_Process sc p n) = p\<lparr>changed := changed p \<or> node_match sc p n\<rparr>"
  by (cases n) (auto simp: pkgErrors_Process_def node_match_def split: prod.splits)

lemma std_Process:
  assumes "std p"
  shows "pkgErrors_Process sc p n =
           (p\<lparr>changed := changed p \<or> node_match sc p n\<rparr>, rewrite1 sc n)"
proof -
  have "snd (pkgErrors_Process sc p n) = rewrite1 sc n"
    by (subst std_as_update [OF assms]) (simp add: Process_consts rewrite1_def)
  then show ?thesis
    by (simp add: Process_fst prod_eq_iff)
qed

lemma Inspect_std_unfold:
  assumes "std p"
  shows "Inspect sc p n =
     (let p1 = p\<lparr>changed := changed p \<or> node_match sc p n\<rparr> in
          (case rewrite1 sc n of
             Ident i \<Rightarrow> (p1, Ident i)
           | BasicLit k v \<Rightarrow> (p1, BasicLit k v)
           | BinaryExpr X Op Y \<Rightarrow>
               (case Inspect sc p1 X of (p2, X') \<Rightarrow>
                case Inspect sc p2 Y of (p3, Y') \<Rightarrow> (p3, BinaryExpr X' Op Y'))
           | CallExpr Fun Args Ellipsis \<Rightarrow>
               (case Inspect sc p1 Fun of (p2, Fun') \<Rightarrow>
                case Inspect_list sc p2 Args of (p3, Args') \<Rightarrow>
                  (p3, CallExpr Fun' Args' Ellipsis))
           | SelectorExpr X Sel \<Rightarrow>
               (case Inspect sc p1 X of (p2, X') \<Rightarrow> (p2, SelectorExpr X' Sel))
           | TypeAssertExpr X T \<Rightarrow>
               (case Inspect sc p1 X of (p2, X') \<Rightarrow>
                case Inspect_opt sc p2 T of (p3, T') \<Rightarrow> (p3, TypeAssertExpr X' T'))
           | ReturnStmt Results \<Rightarrow>
               (case Inspect_list sc p1 Results of (p2, Results') \<Rightarrow>
                  (p2, ReturnStmt Results'))
           | IfStmt Init Cond Body Else \<Rightarrow>
               (case Inspect_opt sc p1 Init of (p2, Init') \<Rightarrow>
                case Inspect sc p2 Cond of (p3, Cond') \<Rightarrow>
                case Inspect sc p3 Body of (p4, Body') \<Rightarrow>
                case Inspect_opt sc p4 Else of (p5, Else') \<Rightarrow>
                  (p5, IfStmt Init' Cond' Body' Else'))
           | OtherNode k ns \<Rightarrow>
               (case Inspect_list sc p1 ns of (p2, ns') \<Rightarrow> (p2, OtherNode k ns'))))"
  by (subst Inspect.simps) (simp add: std_Process [OF assms] Let_def split: node.splits)

lemma Inspect_keeps_std:
  "std p \<longrightarrow> std (fst (Inspect sc p n))"
  "std p \<longrightarrow> std (fst (Inspect_list sc p ns))"
  "std p \<longrightarrow> std (fst (Inspect_opt sc p t))"
proof (induction sc p n and sc p ns and sc p t rule: Inspect_Inspect_list_Inspect_opt.induct)
  case (1 sc p n)
  show ?case
  proof
    assume s: "std p"
    let ?p1 = "p\<lparr>changed := changed p \<or> node_match sc p n\<rparr>"
    have P: "(?p1, rewrite1 sc n) = pkgErrors_Process sc p n"
      by (simp add: std_Process [OF s])
    have s1: "std ?p1" using s by simp
    show "std (fst (Inspect sc p n))"
    proof (cases "rewrite1 sc n")
      case (Ident x1)
      then show ?thesis using s1 by (simp add: Inspect_std_unfold [OF s] Let_def)
    next
      case (BasicLit x21 x22)
      then show ?thesis using s1 by (simp add: Inspect_std_unfold [OF s] Let_def)
    next
      case (BinaryExpr x31 x32 x33)
      note a = "1.IH"(1) [OF P BinaryExpr]
      note b = "1.IH"(2) [OF P BinaryExpr]
      from a s1 b show ?thesis
        by (auto simp: Inspect_std_unfold [OF s] Let_def BinaryExpr split: prod.splits)
    next
      case (CallExpr x41 x42 x43)
      note a = "1.IH"(3) [OF P CallExpr]
      note b = "1.IH"(4) [OF P CallExpr]
      from a s1 b show ?thesis
        by (auto simp: Inspect_std_unfold [OF s] Let_def CallExpr split: prod.splits)
    next
      case (SelectorExpr x51 x52)
      note a = "1.IH"(5) [OF P SelectorExpr]
      from a s1 show ?thesis
        by (auto simp: Inspect_std_unfold [OF s] Let_def SelectorExpr split: prod.splits)
    next
      case (TypeAssertExpr x61 x62)
      note a = "1.IH"(6) [OF P TypeAssertExpr]
      note b = "1.IH"(7) [OF P TypeAssertExpr]
      from a s1 b show ?thesis
        by (auto simp: Inspect_std_unfold [OF s] Let_def TypeAssertExpr split: prod.splits)
    next
      case (ReturnStmt x7)
      note a = "1.IH"(8) [OF P ReturnStmt]
      from a s1 show ?thesis
        by (auto simp: Inspect_std_unfold [OF s] Let_def ReturnStmt split: prod.splits)
    next
      case (IfStmt x81 x82 x83 x84)
      note a = "1.IH"(9) [OF P IfStmt]
      note b = "1.IH"(10) [OF P IfStmt]
      note c = "1.IH"(11) [OF P IfStmt]
      note d = "1.IH"(12) [OF P IfStmt]
      from a s1 b c d show ?thesis
        by (auto simp: Inspect_std_unfold [OF s] Let_def IfStmt split: prod.splits)
    next
      case (OtherNode x91 x92)
      note a = "1.IH"(13) [OF P OtherNode]
      from a s1 show ?thesis
        by (auto simp: Inspect_std_unfold [OF s] Let_def OtherNode split: prod.splits)
    qed
  qed
next
  case (2 sc p)
  then show ?case by simp
next
  case (3 sc p n ns)
  then show ?case by (auto split: prod.splits)
next
  case (4 sc p)
  then show ?case by simp
next
  case (5 sc p n)
  then show ?case by (auto split: prod.splits)
qed

lemma imgI: "std q \<Longrightarrow> img sc a (snd (Inspect sc q a))"
  by (auto simp: img_def)

lemma Inspect_list_img:
  "std p \<Longrightarrow> list_all2 (img sc) ns (snd (Inspect_list sc p ns))"
proof (induction ns arbitrary: p)
  case Nil
  then show ?case by simp
next
  case (Cons n ns)
  from Cons.prems have "std (fst (Inspect sc p n))" by (simp add: Inspect_keeps_std)
  from Cons.IH [OF this] Cons.prems show ?case
    by (auto simp: imgI case_prod_beta)
qed

lemma Inspect_opt_img:
  "std p \<Longrightarrow> rel_option (img sc) t (snd (Inspect_opt sc p t))"
  by (cases t) (auto simp: imgI case_prod_beta)

lemma img_cases:
  assumes "img sc a b"
  shows "case rewrite1 sc a of
           Ident i \<Rightarrow> b = Ident i
         | BasicLit k v \<Rightarrow> b = BasicLit k v
         | BinaryExpr X Op Y \<Rightarrow> \<exists>X' Y'. b = BinaryExpr X' Op Y' \<and> img sc X X' \<and> img sc Y Y'
         | CallExpr Fun Args e \<Rightarrow>
             \<exists>Fun' Args'. b = CallExpr Fun' Args' e \<and> img sc Fun Fun'
               \<and> list_all2 (img sc) Args Args'
         | SelectorExpr X Sel \<Rightarrow> \<exists>X'. b = SelectorExpr X' Sel \<and> img sc X X'
         | TypeAssertExpr X T \<Rightarrow>
             \<exists>X' T'. b = TypeAssertExpr X' T' \<and> img sc X X' \<and> rel_option (img sc) T T'
         | ReturnStmt rs \<Rightarrow> \<exists>rs'. b = ReturnStmt rs' \<and> list_all2 (img sc) rs rs'
         | IfStmt Init Cond Body Else \<Rightarrow>
             \<exists>Init' Cond' Body' Else'. b = IfStmt Init' Cond' Body' Else'
               \<and> rel_option (img sc) Init Init' \<and> img sc Cond Cond' \<and> img sc Body Body'
               \<and> rel_option (img sc) Else Else'
         | OtherNode k ns \<Rightarrow> \<exists>ns'. b = OtherNode k ns' \<and> list_all2 (img sc) ns ns'"
proof -
  from assms obtain q where q: "std q" and b: "b = snd (Inspect sc q a)"
    by (auto simp: img_def)
  let ?p1 = "q\<lparr>changed := changed q \<or> node_match sc q a\<rparr>"
  have s1: "std ?p1" using q by simp
  show ?thesis
  proof (cases "rewrite1 sc a")
    case (Ident x1)
    then show ?thesis by (simp add: b Inspect_std_unfold [OF q] Let_def)
  next
    case (BasicLit x21 x22)
    then show ?thesis by (simp add: b Inspect_std_unfold [OF q] Let_def)
  next
    case (BinaryExpr X Op Y)
    have "img sc X (snd (Inspect sc ?p1 X))" using s1 by (rule imgI)
    moreover have "img sc Y (snd (Inspect sc (fst (Inspect sc ?p1 X)) Y))"
      using s1 by (intro imgI) (simp add: Inspect_keeps_std)
    ultimately show ?thesis
      by (simp add: b Inspect_std_unfold [OF q] Let_def BinaryExpr case_prod_beta)
  next
    case (CallExpr Fun Args e)
    have "img sc Fun (snd (Inspect sc ?p1 Fun))" using s1 by (rule imgI)
    moreover have "list_all2 (img sc) Args (snd (Inspect_list sc (fst (Inspect sc ?p1 Fun)) Args))"
      using s1 by (intro Inspect_list_img) (simp add: Inspect_keeps_std)
    ultimately show ?thesis
      by (simp add: b Inspect_std_unfold [OF q] Let_def CallExpr case_prod_beta)
  next
    case (SelectorExpr X Sel)
    have "img sc X (snd (Inspect sc ?p1 X))" using s1 by (rule imgI)
    then show ?thesis
      by (simp add: b Inspect_std_unfold [OF q] Let_def SelectorExpr case_prod_beta)
  next
    case (TypeAssertExpr X T)
    have "img sc X (snd (Inspect sc ?p1 X))" using s1 by (rule imgI)
    moreover have "rel_option (img sc) T (snd (Inspect_opt sc (fst (Inspect sc ?p1 X)) T))"
      using s1 by (intro Inspect_opt_img) (simp add: Inspect_keeps_std)
    ultimately show ?thesis
      by (simp add: b Inspect_std_unfold [OF q] Let_def TypeAssertExpr case_prod_beta)
  next
    case (ReturnStmt rs)
    have "list_all2 (img sc) rs (snd (Inspect_list sc ?p1 rs))"
      using s1 by (rule Inspect_list_img)
    then show ?thesis
      by (simp add: b Inspect_std_unfold [OF q] Let_def ReturnStmt case_prod_beta)
  next
    case (IfStmt Init Cond Body Else)
    let ?p2 = "fst (Inspect_opt sc ?p1 Init)"
    let ?p3 = "fst (Inspect sc ?p2 Cond)"
    let ?p4 = "fst (Inspect sc ?p3 Body)"
    have s2: "std ?p2" using s1 by (simp add: Inspect_keeps_std)
    then have s3: "std ?p3" by (simp add: Inspect_keeps_std)
    then have s4: "std ?p4" by (simp add: Inspect_keeps_std)
    have "rel_option (img sc) Init (snd (Inspect_opt sc ?p1 Init))"
      using s1 by (rule Inspect_opt_img)
    moreover have "img sc Cond (snd (Inspect sc ?p2 Cond))" using s2 by (rule imgI)
    moreover have "img sc Body (snd (Inspect sc ?p3 Body))" using s3 by (rule imgI)
    moreover have "rel_option (img sc) Else (snd (Inspect_opt sc ?p4 Else))"
      using s4 by (rule Inspect_opt_img)
    ultimately show ?thesis
      by (simp add: b Inspect_std_unfold [OF q] Let_def IfStmt case_prod_beta)
  next
    case (OtherNode k ns)
    have "list_all2 (img sc) ns (snd (Inspect_list sc ?p1 ns))"
      using s1 by (rule Inspect_list_img)
    then show ?thesis
      by (simp add: b Inspect_std_unfold [OF q] Let_def OtherNode case_prod_beta)
  qed
qed

lemma rewrite1_simps [simp]:
  "rewrite1 sc (Ident i) = Ident i"
  "rewrite1 sc (BasicLit k v) = BasicLit k v"
  "rewrite1 sc (BinaryExpr X Op Y) = BinaryExpr X Op Y"
  "rewrite1 sc (SelectorExpr X Sel) = SelectorExpr X Sel"
  "rewrite1 sc (OtherNode kd ns) = OtherNode kd ns"
  "rewrite1 sc (ReturnStmt rs) = ReturnStmt (fst (fixReturnStmt newPkgErrorsDstProcessor rs))"
  "rewrite1 sc (IfStmt Init Cond Body Else) =
     IfStmt Init (fst (fixIfStmt newPkgErrorsDstProcessor Cond)) Body Else"
  "rewrite1 sc (TypeAssertExpr X T) =
     TypeAssertExpr (fst (fixTypeAssertExpr newPkgErrorsDstProcessor X)) T"
  "rewrite1 sc (CallExpr Fun Args e) =
     CallExpr (fst (fst (fixCallExpr sc newPkgErrorsDstProcessor Fun Args)))
       (snd (fst (fixCallExpr sc newPkgErrorsDstProcessor Fun Args))) e"
  by (simp_all add: rewrite1_def pkgErrors_Process_def case_prod_beta)

lemma img_IdentD: "img sc (Ident i) b \<Longrightarrow> b = Ident i"
  using img_cases [of sc "Ident i" b] by simp

lemma img_BasicLitD: "img sc (BasicLit k v) b \<Longrightarrow> b = BasicLit k v"
  using img_cases [of sc "BasicLit k v" b] by simp

lemma img_BinaryD:
  "img sc (BinaryExpr X Op Y) b \<Longrightarrow> \<exists>X' Y'. b = BinaryExpr X' Op Y' \<and> img sc X X' \<and> img sc Y Y'"
  using img_cases [of sc "BinaryExpr X Op Y" b] by simp

lemma img_SelectorD:
  "img sc (SelectorExpr X Sel) b \<Longrightarrow> \<exists>X'. b = SelectorExpr X' Sel \<and> img sc X X'"
  using img_cases [of sc "SelectorExpr X Sel" b] by simp

lemma img_OtherD:
  "img sc (OtherNode kd ns) b \<Longrightarrow> \<exists>ns'. b = OtherNode kd ns' \<and> list_all2 (img sc) ns ns'"
  using img_cases [of sc "OtherNode kd ns" b] by simp

lemma img_ReturnD:
  "img sc (ReturnStmt rs) b \<Longrightarrow>
     \<exists>rs'. b = ReturnStmt rs'
       \<and> list_all2 (img sc) (fst (fixReturnStmt newPkgErrorsDstProcessor rs)) rs'"
  using img_cases [of sc "ReturnStmt rs" b] by simp

lemma img_IfD:
  "img sc (IfStmt Init Cond Body Else) b \<Longrightarrow>
     \<exists>Init' Cond' Body' Else'. b = IfStmt Init' Cond' Body' Else'
       \<and> rel_option (img sc) Init Init'
       \<and> img sc (fst (fixIfStmt newPkgErrorsDstProcessor Cond)) Cond'
       \<and> img sc Body Body' \<and> rel_option (img sc) Else Else'"
  using img_cases [of sc "IfStmt Init Cond Body Else" b] by simp

lemma img_TypeAssertD:
  "img sc (TypeAssertExpr X T) b \<Longrightarrow>
     \<exists>X' T'. b = TypeAssertExpr X' T'
       \<and> img sc (fst (fixTypeAssertExpr newPkgErrorsDstProcessor X)) X'
       \<and> rel_option (img sc) T T'"
  using img_cases [of sc "TypeAssertExpr X T" b] by simp

lemma img_CallD:
  "img sc (CallExpr Fun Args e) b \<Longrightarrow>
     \<exists>Fun' Args'. b = CallExpr Fun' Args' e
       \<and> img sc (fst (fst (fixCallExpr sc newPkgErrorsDstProcessor Fun Args))) Fun'
       \<and> list_all2 (img sc) (snd (fst (fixCallExpr sc newPkgErrorsDstProcessor Fun Args))) Args'"
  using img_cases [of sc "CallExpr Fun Args e" b] by simp

lemmas img_D = img_IdentD img_BasicLitD img_BinaryD img_SelectorD img_OtherD img_ReturnD
  img_IfD img_TypeAssertD img_CallD

lemma img_Ident_iff: "img sc a b \<Longrightarrow> b = Ident i \<longleftrightarrow> a = Ident i"
  by (cases a) (auto dest: img_D)

lemma img_BasicLit_iff: "img sc a b \<Longrightarrow> b = BasicLit k v \<longleftrightarrow> a = BasicLit k v"
  by (cases a) (auto dest: img_D)

lemma img_isName: "img sc a b \<Longrightarrow> isName b s = isName a s"
  by (cases a) (auto simp: isName_def dest: img_D)

lemma img_isTopName: "img sc a b \<Longrightarrow> isTopName b s = isTopName a s"
  by (cases a) (auto simp: isTopName_def dest: img_D)

lemma img_isPkgSelector: "img sc a b \<Longrightarrow> isPkgSelector b s t = isPkgSelector a s t"
  by (cases a) (auto simp: isPkgSelector_def img_isTopName dest!: img_D)

lemma img_Binary_conv:
  "img sc a (BinaryExpr X' Op Y') \<Longrightarrow> \<exists>X Y. a = BinaryExpr X Op Y \<and> img sc X X' \<and> img sc Y Y'"
  by (cases a) (auto dest: img_D)

lemma img_not_Binary:
  "img sc a b \<Longrightarrow> (\<forall>X Op Y. a \<noteq> BinaryExpr X Op Y) \<Longrightarrow> b \<noteq> BinaryExpr X' Op' Y'"
  by (cases a) (auto dest: img_D)

lemma img_compareErr:
  "img sc X X' \<Longrightarrow> img sc Y Y' \<Longrightarrow> compareErr p X' Op Y' yn = compareErr p X Op Y yn"
  by (simp add: compareErr_def img_isName)

lemma consts_new [simp]:
  "errIdent newPkgErrorsDstProcessor = ''err''"
  "nilIdent newPkgErrorsDstProcessor = ''nil''"
  "errorsIdent newPkgErrorsDstProcessor = ''errors''"
  "newIdent newPkgErrorsDstProcessor = ''New''"
  "errorfIdent newPkgErrorsDstProcessor = ''Errorf''"
  "wrapfIdent newPkgErrorsDstProcessor = ''Wrapf''"
  "causeIdent newPkgErrorsDstProcessor = ''Cause''"
  "withStackIdent newPkgErrorsDstProcessor = ''WithStack''"
  "pkgPath newPkgErrorsDstProcessor = ''github.com/pkg/errors''"
  "changed newPkgErrorsDstProcessor = False"
  by (simp_all add: newPkgErrorsDstProcessor_def)

lemma fixReturnStmt_last:
  "fst (fixReturnStmt p rs) = [] \<or> \<not> isName (last (fst (fixReturnStmt p rs))) (errIdent p)"
proof (cases "rs = []")
  case True
  then show ?thesis by (simp add: fixReturnStmt_def)
next
  case False
  then have "rs ! (length rs - Suc 0) = last rs" by (simp add: last_conv_nth)
  with False show ?thesis
    by (auto simp: fixReturnStmt_def list_update_last withStackExpr_def isName_def)
qed

lemma list_all2_last:
  "list_all2 R xs ys \<Longrightarrow> xs \<noteq> [] \<Longrightarrow> R (last xs) (last ys)"
  by (induction rule: list_all2_induct) (auto simp: list_all2_Nil)

lemma stable_Return:
  assumes "list_all2 (img sc) (fst (fixReturnStmt newPkgErrorsDstProcessor rs)) rs'"
  shows "fixReturnStmt newPkgErrorsDstProcessor rs' = (rs', False)"
proof (cases "rs' = []")
  case True
  then show ?thesis by (simp add: fixReturnStmt_def)
next
  case False
  let ?rs1 = "fst (fixReturnStmt newPkgErrorsDstProcessor rs)"
  from assms False have ne: "?rs1 \<noteq> []" by auto
  from list_all2_last [OF assms ne] have "isName (last rs') ''err'' = isName (last ?rs1) ''err''"
    by (rule img_isName)
  with fixReturnStmt_last [of newPkgErrorsDstProcessor rs] ne
  have "\<not> isName (last rs') ''err''" by simp
  moreover have "rs' ! (length rs' - Suc 0) = last rs'" using False by (simp add: last_conv_nth)
  ultimately show ?thesis using False by (simp add: fixReturnStmt_def)
qed

lemma stable_TypeAssert:
  assumes "img sc (fst (fixTypeAssertExpr newPkgErrorsDstProcessor X)) X'"
  shows "fixTypeAssertExpr newPkgErrorsDstProcessor X' = (X', False)"
proof -
  have "\<not> isName (fst (fixTypeAssertExpr newPkgErrorsDstProcessor X)) ''err''"
    by (simp add: fixTypeAssertExpr_def causeExpr_def isName_def)
  with img_isName [OF assms] show ?thesis by (simp add: fixTypeAssertExpr_def)
qed

lemma causeExpr_not_name: "\<not> isName (causeExpr p) s"
  by (simp add: causeExpr_def isName_def)

lemma img_causeExpr_not_Binary: "img sc (causeExpr p) b \<Longrightarrow> b \<noteq> BinaryExpr X Op Y"
  by (auto simp: causeExpr_def dest: img_D)

lemma fixIfStmt_not_Binary:
  "(\<forall>X Op Y. c \<noteq> BinaryExpr X Op Y) \<Longrightarrow> fixIfStmt p c = (c, False)"
  by (cases c) (auto simp: fixIfStmt_def)

lemma stable_If:
  assumes "img sc (fst (fixIfStmt newPkgErrorsDstProcessor c)) c'"
  shows "fixIfStmt newPkgErrorsDstProcessor c' = (c', False)"
proof (cases "\<exists>X Op Y. c = BinaryExpr X Op Y")
  case False
  then have "fst (fixIfStmt newPkgErrorsDstProcessor c) = c"
    by (simp add: fixIfStmt_not_Binary)
  with assms False have "\<forall>X Op Y. c' \<noteq> BinaryExpr X Op Y"
    using img_not_Binary by fastforce
  then show ?thesis by (rule fixIfStmt_not_Binary)
next
  case True
  then obtain X Op Y where c: "c = BinaryExpr X Op Y" by blast
  let ?P = newPkgErrorsDstProcessor
  show ?thesis
  proof (cases "compareErr ?P X Op Y False")
    case True
    then have "fst (fixIfStmt ?P c) = BinaryExpr (causeExpr ?P) Op Y"
      by (simp add: c fixIfStmt_def)
    with assms obtain X' Y' where c': "c' = BinaryExpr X' Op Y'"
      and X': "img sc (causeExpr ?P) X'" and Y': "img sc Y Y'"
      by (auto dest: img_BinaryD)
    have 1: "\<not> compareErr ?P X' Op Y' False"
      using img_isName [OF X'] by (simp add: compareErr_def causeExpr_not_name)
    have 2: "\<forall>A B C. X' \<noteq> BinaryExpr A B C"
      using img_causeExpr_not_Binary [OF X'] by blast
    from 1 2 show ?thesis
      by (cases X') (auto simp: c' fixIfStmt_def)
  next
    case False
    note nf = False
    let ?compound = "\<exists>XX XOp XY YX YOp YY. X = BinaryExpr XX XOp XY \<and> Y = BinaryExpr YX YOp YY
        \<and> (Op = LAND \<or> Op = LOR) \<and> compareErr ?P XX XOp XY True \<and> compareErr ?P YX YOp YY False"
    show ?thesis
    proof (cases ?compound)
      case True
      then obtain XX XOp XY YX YOp YY where X: "X = BinaryExpr XX XOp XY"
        and Y: "Y = BinaryExpr YX YOp YY" and op: "Op = LAND \<or> Op = LOR"
        and cx: "compareErr ?P XX XOp XY True" and cy: "compareErr ?P YX YOp YY False"
        by blast
      have "fst (fixIfStmt ?P c) = BinaryExpr X Op (BinaryExpr (causeExpr ?P) YOp YY)"
        using nf op cx cy by (simp add: c X Y fixIfStmt_def)
      with assms obtain X' Y' where c': "c' = BinaryExpr X' Op Y'"
        and X': "img sc X X'" and Y': "img sc (BinaryExpr (causeExpr ?P) YOp YY) Y'"
        by (auto dest: img_BinaryD)
      from Y' obtain CZ YY' where Y'': "Y' = BinaryExpr CZ YOp YY'"
        and CZ: "img sc (causeExpr ?P) CZ" by (auto dest: img_BinaryD)
      have 1: "\<not> compareErr ?P X' Op Y' False"
        using op by (auto simp: compareErr_def)
      have 2: "\<not> compareErr ?P CZ YOp YY' False"
        using img_isName [OF CZ] by (simp add: compareErr_def causeExpr_not_name)
      from 1 2 show ?thesis
        by (cases X') (auto simp: c' Y'' fixIfStmt_def)
    next
      case False
      then have "fst (fixIfStmt ?P c) = c"
        using nf by (auto simp: c fixIfStmt_def split: node.splits)
      with assms obtain X' Y' where c': "c' = BinaryExpr X' Op Y'"
        and X': "img sc X X'" and Y': "img sc Y Y'"
        by (auto simp: c dest: img_BinaryD)
      have 1: "\<not> compareErr ?P X' Op Y' False"
        using nf by (simp add: img_compareErr [OF X' Y'])
      have 2: "\<not> ((Op = LAND \<or> Op = LOR) \<and> compareErr ?P XX' XOp XY' True
                   \<and> compareErr ?P YX' YOp YY' False)"
        if x: "X' = BinaryExpr XX' XOp XY'" and y: "Y' = BinaryExpr YX' YOp YY'"
        for XX' XOp XY' YX' YOp YY'
      proof -
        from X' x obtain XX XY where X: "X = BinaryExpr XX XOp XY"
          and xx: "img sc XX XX'" "img sc XY XY'"
          by (auto dest: img_Binary_conv)
        from Y' y obtain YX YY where Y: "Y = BinaryExpr YX YOp YY"
          and yy: "img sc YX YX'" "img sc YY YY'"
          by (auto dest: img_Binary_conv)
        from False X Y show ?thesis
          by (simp add: img_compareErr [OF xx] img_compareErr [OF yy])
      qed
      from 1 2 show ?thesis
        by (auto simp: c' fixIfStmt_def split: node.splits)
    qed
  qed
qed

lemma isPkgSelector_new_sel:
  "isPkgSelector (SelectorExpr (Ident (NewIdent a)) (NewIdent b)) s t \<longleftrightarrow> a = s \<and> b = t"
  by (simp add: isPkgSelector_def isTopName_def NewIdent_def ident_String_def)

lemma fixCallExpr_cases:
  "fixCallExpr sc newPkgErrorsDstProcessor f as = ((f, as), True) \<and> isPkgSelector f ''errors'' ''New''
   \<or> fixCallExpr sc newPkgErrorsDstProcessor f as = ((f, as), False)
       \<and> \<not> isPkgSelector f ''errors'' ''New''
       \<and> (isPkgSelector f ''fmt'' ''Errorf'' \<longrightarrow>
            as = [] \<or> (\<forall>v. as ! 0 = BasicLit STRING v \<longrightarrow> Unquote sc v = None))
   \<or> (\<exists>nm as1. fixCallExpr sc newPkgErrorsDstProcessor f as =
          ((SelectorExpr (Ident (NewIdent ''errors'')) (NewIdent nm), as1), True)
        \<and> (nm = ''Wrapf'' \<or> nm = ''Errorf''))"
  by (auto simp: fixCallExpr_def Let_def split: node.splits option.splits)

lemma stable_Call:
  assumes f: "img sc (fst (fst (fixCallExpr sc newPkgErrorsDstProcessor f as))) f'"
    and a: "list_all2 (img sc) (snd (fst (fixCallExpr sc newPkgErrorsDstProcessor f as))) as'"
  shows "fst (fixCallExpr sc newPkgErrorsDstProcessor f' as') = (f', as')"
proof -
  let ?P = newPkgErrorsDstProcessor
  consider
    (new) "fixCallExpr sc ?P f as = ((f, as), True)" "isPkgSelector f ''errors'' ''New''"
  | (none) "fixCallExpr sc ?P f as = ((f, as), False)" "\<not> isPkgSelector f ''errors'' ''New''"
      "isPkgSelector f ''fmt'' ''Errorf'' \<longrightarrow>
         as = [] \<or> (\<forall>v. as ! 0 = BasicLit STRING v \<longrightarrow> Unquote sc v = None)"
  | (rewritten) nm as1 where
      "fixCallExpr sc ?P f as =
         ((SelectorExpr (Ident (NewIdent ''errors'')) (NewIdent nm), as1), True)"
      "nm = ''Wrapf'' \<or> nm = ''Errorf''"
    using fixCallExpr_cases [of sc f as] by blast
  then show ?thesis
  proof cases
    case new
    with f have "isPkgSelector f' ''errors'' ''New''" by (simp add: img_isPkgSelector)
    then show ?thesis by (simp add: fixCallExpr_def)
  next
    case none
    from f none have s: "isPkgSelector f' x y = isPkgSelector f x y" for x y
      by (simp add: img_isPkgSelector)
    from a none have l: "list_all2 (img sc) as as'" by simp
    show ?thesis
    proof (cases "isPkgSelector f ''fmt'' ''Errorf''")
      case False
      with none(2) show ?thesis by (simp add: fixCallExpr_def s)
    next
      case True
      show ?thesis
      proof (cases "as = []")
        case True
        with l have "as' = []" by simp
        then show ?thesis by (simp add: fixCallExpr_def)
      next
        case False
        with l have ne: "as' \<noteq> []" by auto
        from l False have i: "img sc (as ! 0) (as' ! 0)"
          by (cases as; cases as') auto
        have "Unquote sc v = None" if "as' ! 0 = BasicLit STRING v" for v
          using that none(3) True False img_BasicLit_iff [OF i] by simp
        then show ?thesis
          using ne by (auto simp: fixCallExpr_def s split: node.splits option.splits)
      qed
    qed
  next
    case rewritten
    with f have "isPkgSelector f' x y =
        isPkgSelector (SelectorExpr (Ident (NewIdent ''errors'')) (NewIdent nm)) x y" for x y
      by (simp add: img_isPkgSelector)
    with rewritten(2) have "\<not> isPkgSelector f' ''errors'' ''New''" "\<not> isPkgSelector f' ''fmt'' ''Errorf''"
      by (auto simp: isPkgSelector_new_sel)
    then show ?thesis by (simp add: fixCallExpr_def)
  qed
qed

lemma img_rewrite1: "img sc a b \<Longrightarrow> rewrite1 sc b = b"
proof (cases a)
  case (Ident x1)
  assume "img sc a b"
  with Ident show ?thesis by (auto dest: img_D)
next
  case (BasicLit x21 x22)
  assume "img sc a b"
  with BasicLit show ?thesis by (auto dest: img_D)
next
  case (BinaryExpr x31 x32 x33)
  assume "img sc a b"
  with BinaryExpr show ?thesis by (auto dest: img_D)
next
  case (CallExpr x41 x42 x43)
  assume "img sc a b"
  with CallExpr obtain f' as' where b: "b = CallExpr f' as' x43"
    and f: "img sc (fst (fst (fixCallExpr sc newPkgErrorsDstProcessor x41 x42))) f'"
    and a: "list_all2 (img sc) (snd (fst (fixCallExpr sc newPkgErrorsDstProcessor x41 x42))) as'"
    by (auto dest: img_D)
  from stable_Call [OF f a] show ?thesis by (simp add: b)
next
  case (SelectorExpr x51 x52)
  assume "img sc a b"
  with SelectorExpr show ?thesis by (auto dest: img_D)
next
  case (TypeAssertExpr x61 x62)
  assume "img sc a b"
  with TypeAssertExpr show ?thesis by (auto dest!: img_D simp: stable_TypeAssert)
next
  case (ReturnStmt x7)
  assume "img sc a b"
  with ReturnStmt show ?thesis by (auto dest!: img_D simp: stable_Return)
next
  case (IfStmt x81 x82 x83 x84)
  assume "img sc a b"
  with IfStmt show ?thesis by (auto dest!: img_D simp: stable_If)
next
  case (OtherNode x91 x92)
  assume "img sc a b"
  with OtherNode show ?thesis by (auto dest: img_D)
qed

lemma Inspect_list_stable:
  "(\<And>c q. c \<in> set cs \<Longrightarrow> std q \<Longrightarrow> snd (Inspect sc q c) = c) \<Longrightarrow> std q \<Longrightarrow>
     snd (Inspect_list sc q cs) = cs"
proof (induction cs arbitrary: q)
  case Nil
  then show ?case by simp
next
  case (Cons c cs)
  have "std (fst (Inspect sc q c))" using Cons.prems(2) by (simp add: Inspect_keeps_std)
  then have "snd (Inspect_list sc (fst (Inspect sc q c)) cs) = cs"
    by (intro Cons.IH Cons.prems(1)) simp_all
  moreover have "snd (Inspect sc q c) = c" using Cons.prems by simp
  ultimately show ?case by (simp add: case_prod_beta)
qed

lemma Inspect_opt_stable:
  "(\<And>c q. c \<in> set_option t \<Longrightarrow> std q \<Longrightarrow> snd (Inspect sc q c) = c) \<Longrightarrow> std q \<Longrightarrow>
     snd (Inspect_opt sc q t) = t"
  by (cases t) (simp_all add: case_prod_beta)

lemma list_all2_set2: "list_all2 R xs ys \<Longrightarrow> y \<in> set ys \<Longrightarrow> \<exists>x \<in> set xs. R x y"
  by (induction rule: list_all2_induct) auto

lemma rel_option_set2: "rel_option R t t' \<Longrightarrow> y \<in> set_option t' \<Longrightarrow> \<exists>x \<in> set_option t. R x y"
  by (cases t; cases t') auto

lemma node_weight_option:
  "x \<in> set_option t \<Longrightarrow> node_weight x \<le> (case t of None \<Rightarrow> 0 | Some n \<Rightarrow> node_weight n)"
  by (cases t) auto

lemma quiet_rewrite1: "quiet sc n \<Longrightarrow> rewrite1 sc n = n"
  by (cases n) simp_all

lemma quiet_stable: "quiet sc b \<Longrightarrow> std q \<Longrightarrow> snd (Inspect sc q b) = b"
proof (induction b arbitrary: q)
  case (Ident x)
  then show ?case by (simp add: Inspect_std_unfold Let_def)
next
  case (BasicLit x1a x2)
  then show ?case by (simp add: Inspect_std_unfold Let_def)
next
  case (BinaryExpr X Op Y)
  let ?q1 = "q\<lparr>changed := changed q \<or> node_match sc q (BinaryExpr X Op Y)\<rparr>"
  have s1: "std ?q1" using BinaryExpr.prems(2) by simp
  have "snd (Inspect sc ?q1 X) = X" using BinaryExpr s1 by simp
  moreover have "snd (Inspect sc (fst (Inspect sc ?q1 X)) Y) = Y"
    using BinaryExpr.prems(1) s1 by (intro BinaryExpr.IH) (simp_all add: Inspect_keeps_std)
  ultimately show ?case
    by (simp add: Inspect_std_unfold [OF BinaryExpr.prems(2)] Let_def case_prod_beta)
next
  case (CallExpr F As e)
  let ?q1 = "q\<lparr>changed := changed q \<or> node_match sc q (CallExpr F As e)\<rparr>"
  have s1: "std ?q1" using CallExpr.prems(2) by simp
  note r = quiet_rewrite1 [OF CallExpr.prems(1)]
  have "snd (Inspect sc ?q1 F) = F" using CallExpr.prems(1) s1 by (intro CallExpr.IH) simp_all
  moreover have "snd (Inspect_list sc (fst (Inspect sc ?q1 F)) As) = As"
  proof (rule Inspect_list_stable)
    show "std (fst (Inspect sc ?q1 F))" using s1 by (simp add: Inspect_keeps_std)
  next
    fix c q' assume "c \<in> set As" "std q'"
    with CallExpr.prems(1) show "snd (Inspect sc q' c) = c"
      by (intro CallExpr.IH) (simp_all add: list_all_iff)
  qed
  ultimately show ?case
    by (simp only: Inspect_std_unfold [OF CallExpr.prems(2)] Let_def r)
      (simp add: case_prod_beta)
next
  case (SelectorExpr X Sel)
  let ?q1 = "q\<lparr>changed := changed q \<or> node_match sc q (SelectorExpr X Sel)\<rparr>"
  have s1: "std ?q1" using SelectorExpr.prems(2) by simp
  have "snd (Inspect sc ?q1 X) = X" using SelectorExpr s1 by simp
  then show ?case
    by (simp add: Inspect_std_unfold [OF SelectorExpr.prems(2)] Let_def case_prod_beta)
next
  case (TypeAssertExpr X T)
  let ?q1 = "q\<lparr>changed := changed q \<or> node_match sc q (TypeAssertExpr X T)\<rparr>"
  have s1: "std ?q1" using TypeAssertExpr.prems(2) by simp
  note r = quiet_rewrite1 [OF TypeAssertExpr.prems(1)]
  have "snd (Inspect sc ?q1 X) = X"
    using TypeAssertExpr.prems(1) s1 by (intro TypeAssertExpr.IH) simp_all
  moreover have "snd (Inspect_opt sc (fst (Inspect sc ?q1 X)) T) = T"
  proof (rule Inspect_opt_stable)
    show "std (fst (Inspect sc ?q1 X))" using s1 by (simp add: Inspect_keeps_std)
  next
    fix c q' assume "c \<in> set_option T" "std q'"
    with TypeAssertExpr.prems(1) show "snd (Inspect sc q' c) = c"
      by (intro TypeAssertExpr.IH) (auto split: option.splits)
  qed
  ultimately show ?case
    by (simp only: Inspect_std_unfold [OF TypeAssertExpr.prems(2)] Let_def r)
      (simp add: case_prod_beta)
next
  case (ReturnStmt rs)
  let ?q1 = "q\<lparr>changed := changed q \<or> node_match sc q (ReturnStmt rs)\<rparr>"
  have s1: "std ?q1" using ReturnStmt.prems(2) by simp
  note r = quiet_rewrite1 [OF ReturnStmt.prems(1)]
  have "snd (Inspect_list sc ?q1 rs) = rs"
  proof (rule Inspect_list_stable [OF _ s1])
    fix c q' assume "c \<in> set rs" "std q'"
    with ReturnStmt.prems(1) show "snd (Inspect sc q' c) = c"
      by (intro ReturnStmt.IH) (simp_all add: list_all_iff)
  qed
  then show ?case
    by (simp only: Inspect_std_unfold [OF ReturnStmt.prems(2)] Let_def r)
      (simp add: case_prod_beta)
next
  case (IfStmt Init Cond Body Else)
  let ?q1 = "q\<lparr>changed := changed q \<or> node_match sc q (IfStmt Init Cond Body Else)\<rparr>"
  let ?q2 = "fst (Inspect_opt sc ?q1 Init)"
  let ?q3 = "fst (Inspect sc ?q2 Cond)"
  let ?q4 = "fst (Inspect sc ?q3 Body)"
  have s1: "std ?q1" using IfStmt.prems(2) by simp
  then have s2: "std ?q2" by (simp add: Inspect_keeps_std)
  then have s3: "std ?q3" by (simp add: Inspect_keeps_std)
  then have s4: "std ?q4" by (simp add: Inspect_keeps_std)
  note r = quiet_rewrite1 [OF IfStmt.prems(1)]
  have "snd (Inspect_opt sc ?q1 Init) = Init"
  proof (rule Inspect_opt_stable [OF _ s1])
    fix c q' assume "c \<in> set_option Init" "std q'"
    with IfStmt.prems(1) show "snd (Inspect sc q' c) = c"
      by (intro IfStmt.IH(1)) (auto split: option.splits)
  qed
  moreover have "snd (Inspect sc ?q2 Cond) = Cond"
    using IfStmt.prems(1) s2 by (intro IfStmt.IH(2)) simp_all
  moreover have "snd (Inspect sc ?q3 Body) = Body"
    using IfStmt.prems(1) s3 by (intro IfStmt.IH(3)) simp_all
  moreover have "snd (Inspect_opt sc ?q4 Else) = Else"
  proof (rule Inspect_opt_stable [OF _ s4])
    fix c q' assume "c \<in> set_option Else" "std q'"
    with IfStmt.prems(1) show "snd (Inspect sc q' c) = c"
      by (intro IfStmt.IH(4)) (auto split: option.splits)
  qed
  ultimately show ?case
    by (simp only: Inspect_std_unfold [OF IfStmt.prems(2)] Let_def r)
      (simp add: case_prod_beta)
next
  case (OtherNode kd ns)
  let ?q1 = "q\<lparr>changed := changed q \<or> node_match sc q (OtherNode kd ns)\<rparr>"
  have s1: "std ?q1" using OtherNode.prems(2) by simp
  have "snd (Inspect_list sc ?q1 ns) = ns"
  proof (rule Inspect_list_stable [OF _ s1])
    fix c q' assume "c \<in> set ns" "std q'"
    with OtherNode.prems(1) show "snd (Inspect sc q' c) = c"
      by (intro OtherNode.IH) (simp_all add: list_all_iff)
  qed
  then show ?case
    by (simp add: Inspect_std_unfold [OF OtherNode.prems(2)] Let_def case_prod_beta)
qed

lemma img_quiet: "img sc a b \<Longrightarrow> quiet sc b"
proof (induction "node_weight a" arbitrary: a b rule: less_induct)
  case less
  have "pkgErrors_Process sc newPkgErrorsDstProcessor a =
          (fst (pkgErrors_Process sc newPkgErrorsDstProcessor a), rewrite1 sc a)"
    by (simp add: rewrite1_def)
  then have kw: "kids_weight (rewrite1 sc a) < node_weight a" by (rule Process_weight)
  have r: "rewrite1 sc b = b" using less.prems(1) by (rule img_rewrite1)
  have IH: "quiet sc c'"
    if "img sc c c'" "node_weight c \<le> kids_weight (rewrite1 sc a)" for c c'
    using less.hyps [of c c'] that kw by simp
  have IHl: "list_all (quiet sc) cs'"
    if l: "list_all2 (img sc) cs cs'"
      and w: "sum_list (map node_weight cs) \<le> kids_weight (rewrite1 sc a)"
    for cs cs'
    unfolding list_all_iff
  proof
    fix c' assume c': "c' \<in> set cs'"
    from list_all2_set2 [OF l c'] obtain c where c: "c \<in> set cs" "img sc c c'" by blast
    from c(1) have "node_weight c \<le> sum_list (map node_weight cs)"
      by (simp add: member_le_sum_list)
    with w c(2) show "quiet sc c'" by (intro IH [of c]) simp_all
  qed
  have IHo: "(case t' of None \<Rightarrow> True | Some x \<Rightarrow> quiet sc x)"
    if l: "rel_option (img sc) t t'"
      and w: "(case t of None \<Rightarrow> 0 | Some n \<Rightarrow> node_weight n) \<le> kids_weight (rewrite1 sc a)"
    for t t'
  proof (cases t')
    case None
    then show ?thesis by simp
  next
    case (Some c')
    with l obtain c where c: "t = Some c" "img sc c c'" by (cases t) auto
    with w have "quiet sc c'" by (intro IH [of c]) simp_all
    with Some show ?thesis by simp
  qed
  from img_cases [OF less.prems(1)] show ?case
  proof (cases "rewrite1 sc a")
    case (Ident x1)
    with img_cases [OF less.prems(1)] show ?thesis by simp
  next
    case (BasicLit x21 x22)
    with img_cases [OF less.prems(1)] show ?thesis by simp
  next
    case (BinaryExpr X Op Y)
    with img_cases [OF less.prems(1)] obtain X' Y' where b: "b = BinaryExpr X' Op Y'"
      and i: "img sc X X'" "img sc Y Y'" by auto
    have "quiet sc X'" using i(1) by (intro IH [of X]) (simp_all add: BinaryExpr)
    moreover have "quiet sc Y'" using i(2) by (intro IH [of Y]) (simp_all add: BinaryExpr)
    ultimately show ?thesis by (simp add: b)
  next
    case (CallExpr F As e)
    with img_cases [OF less.prems(1)] obtain F' As' where b: "b = CallExpr F' As' e"
      and i: "img sc F F'" "list_all2 (img sc) As As'" by auto
    have "quiet sc F'" using i(1) by (intro IH [of F]) (simp_all add: CallExpr)
    moreover have "list_all (quiet sc) As'"
      using i(2) by (intro IHl [of As]) (simp_all add: CallExpr)
    ultimately show ?thesis using r unfolding b by (simp only: quiet.simps simp_thms)
  next
    case (SelectorExpr X Sel)
    with img_cases [OF less.prems(1)] obtain X' where b: "b = SelectorExpr X' Sel"
      and i: "img sc X X'" by auto
    have "quiet sc X'" using i(1) by (intro IH [of X]) (simp_all add: SelectorExpr)
    then show ?thesis by (simp add: b)
  next
    case (TypeAssertExpr X T)
    with img_cases [OF less.prems(1)] obtain X' T' where b: "b = TypeAssertExpr X' T'"
      and i: "img sc X X'" "rel_option (img sc) T T'" by auto
    have "quiet sc X'" using i(1) by (intro IH [of X]) (simp_all add: TypeAssertExpr)
    moreover have "case T' of None \<Rightarrow> True | Some x \<Rightarrow> quiet sc x"
      using i(2) by (intro IHo [of T]) (simp_all add: TypeAssertExpr)
    ultimately show ?thesis using r unfolding b by (simp only: quiet.simps simp_thms)
  next
    case (ReturnStmt rs)
    with img_cases [OF less.prems(1)] obtain rs' where b: "b = ReturnStmt rs'"
      and i: "list_all2 (img sc) rs rs'" by auto
    have "list_all (quiet sc) rs'" using i by (intro IHl [of rs]) (simp_all add: ReturnStmt)
    then show ?thesis using r unfolding b by (simp only: quiet.simps simp_thms)
  next
    case (IfStmt Init Cond Body Else)
    with img_cases [OF less.prems(1)] obtain Init' Cond' Body' Else' where
      b: "b = IfStmt Init' Cond' Body' Else'"
      and i: "rel_option (img sc) Init Init'" "img sc Cond Cond'" "img sc Body Body'"
        "rel_option (img sc) Else Else'" by auto
    have "case Init' of None \<Rightarrow> True | Some x \<Rightarrow> quiet sc x"
      using i(1) by (intro IHo [of Init]) (simp_all add: IfStmt)
    moreover have "quiet sc Cond'" using i(2) by (intro IH [of Cond]) (simp_all add: IfStmt)
    moreover have "quiet sc Body'" using i(3) by (intro IH [of Body]) (simp_all add: IfStmt)
    moreover have "case Else' of None \<Rightarrow> True | Some x \<Rightarrow> quiet sc x"
      using i(4) by (intro IHo [of Else]) (simp_all add: IfStmt)
    ultimately show ?thesis using r unfolding b by (simp only: quiet.simps simp_thms)
  next
    case (OtherNode kd ns)
    with img_cases [OF less.prems(1)] obtain ns' where b: "b = OtherNode kd ns'"
      and i: "list_all2 (img sc) ns ns'" by auto
    have "list_all (quiet sc) ns'" using i by (intro IHl [of ns]) (simp_all add: OtherNode)
    then show ?thesis by (simp add: b)
  qed
qed

lemma img_stable:
  "img sc a b \<Longrightarrow> std q \<Longrightarrow> snd (Inspect sc q b) = b"
  by (rule quiet_stable [OF img_quiet])




















lemma Inspect_idempotent:
  "snd (Inspect sc newPkgErrorsDstProcessor (snd (Inspect sc newPkgErrorsDstProcessor n))) =
     snd (Inspect sc newPkgErrorsDstProcessor n)"
  by (rule img_stable [OF imgI [OF std_new] std_new])





















section \<open>Properties of the pipeline\<close>

text \<open>
  Nothing ever arrives on \<^verbatim>\<open>errCh\<close>, so the loop ends only when \<^verbatim>\<open>ch\<close> is closed:
  a run that returns has started a unit for every file of the stream, and returns the
  first error the group recorded.
\<close>

lemma ErrFix_step_invariant:
  assumes "ErrFix_step unit ev s = Some s'"
  shows "st_errCh s = [] \<longrightarrow> st_errCh s' = []"
    and "st_started s' @ st_ch s' = st_started s @ st_ch s"
    and "st_errCh s = [] \<longrightarrow> st_err s = None \<longrightarrow> st_err s' = None"
    and "st_group_err s = Some e \<longrightarrow> st_group_err s' = Some e"
    and "st_errCh s = [] \<longrightarrow> st_loop s \<or> st_ch s = [] \<longrightarrow> st_loop s' \<or> st_ch s' = []"
  using assms
  by (auto simp: ErrFix_step_def split: event.splits list.splits if_splits)

lemma ErrFix_run_invariant:
  "ErrFix_run unit evs s = Some s' \<Longrightarrow> st_errCh s = [] \<Longrightarrow> st_err s = None \<Longrightarrow>
   st_loop s \<or> st_ch s = [] \<Longrightarrow>
     st_errCh s' = [] \<and> st_err s' = None \<and> st_started s' @ st_ch s' = st_started s @ st_ch s
       \<and> (st_loop s' \<or> st_ch s' = [])"
proof (induction evs arbitrary: s)
  case Nil
  then show ?case by simp
next
  case (Cons ev evs)
  from Cons.prems(1) obtain s1 where 1: "ErrFix_step unit ev s = Some s1"
    and 2: "ErrFix_run unit evs s1 = Some s'"
    by (auto split: option.splits)
  from ErrFix_step_invariant [OF 1] Cons.prems
  have "st_errCh s1 = []" "st_err s1 = None" "st_started s1 @ st_ch s1 = st_started s @ st_ch s"
    "st_loop s1 \<or> st_ch s1 = []"
    by simp_all
  with Cons.IH [OF 2] show ?case by simp
qed

lemma ErrFix_all_scheduled:
  assumes "ErrFix_run unit evs (ErrFix_init files) = Some s" and "ErrFix_result s = Some r"
  shows "st_started s = files \<and> r = st_group_err s"
proof -
  from ErrFix_run_invariant [OF assms(1)]
  have i: "st_errCh s = []" "st_err s = None" "st_started s @ st_ch s = files"
    "st_loop s \<or> st_ch s = []"
    by (simp_all add: ErrFix_init_def)
  have l: "\<not> st_loop s" using assms(2) by (auto simp: ErrFix_result_def split: if_splits)
  with i assms(2) show ?thesis
    by (auto simp: ErrFix_result_def split: if_splits)
qed

text \<open>
  C9. The claim says that no unit is scheduled after the first failure. On the stream
  of \<open>bad_file\<close> and \<open>good_file\<close> the code does otherwise: the unit of \<open>bad_file\<close> is
  started and returns its error, which the group records, and the next receive still
  starts the unit of \<open>good_file\<close>.
\<close>

theorem ErrFix_schedules_after_failure:
  "ErrFix_run (fn P W) [Receive, Return 0] (ErrFix_init [bad_file, good_file]) =
     Some \<lparr>st_ch = [good_file], st_errCh = [], st_loop = True, st_err = None, st_active = [],
           st_group_err = Some ''error while reading from bad.go, permission denied'',
           st_started = [bad_file]\<rparr>
   \<and> ErrFix_run (fn P W) [Receive, Return 0, Receive] (ErrFix_init [bad_file, good_file]) =
     Some \<lparr>st_ch = [], st_errCh = [], st_loop = True, st_err = None, st_active = [good_file],
           st_group_err = Some ''error while reading from bad.go, permission denied'',
           st_started = [bad_file, good_file]\<rparr>"
  by (simp add: ErrFix_step_def ErrFix_init_def fn_def bad_file_def good_file_def)

end
